theory Spec2Isabelle
  imports
    Main
    "HOL-Library.Char_ord"
    "HOL-Library.List_Lexorder"
    "HOL-Library.Sublist"
    "HOL-Library.AList"
begin

section \<open>The ingestion pipeline of \<^verbatim>\<open>assessment.ipynb\<close>\<close>

text \<open>
  The notebook's processing cell defines \<^verbatim>\<open>clean_cols\<close>, \<^verbatim>\<open>row_hash\<close>, the two
  generators \<^verbatim>\<open>csv_rows\<close> and \<^verbatim>\<open>json_rows\<close>, \<^verbatim>\<open>load_ckpt\<close>, \<^verbatim>\<open>save_ckpt\<close>,
  \<^verbatim>\<open>process\<close> and \<^verbatim>\<open>run_all\<close>. They are embedded below, function by function.

  Conventions of the embedding.
  \<^item> A Python \<^verbatim>\<open>str\<close> is a \<^typ>\<open>string\<close>; a character stands for a code point below 256.
    Strings are compared as Python compares them, lexicographically by code point
    (the order of \<^theory_text>\<open>List_Lexorder\<close> over \<^theory_text>\<open>Char_ord\<close>).
  \<^item> A record (a Python \<^verbatim>\<open>dict\<close> with string keys) is an association list in insertion
    order. The pipeline never looks inside a value, so the type of values is a parameter.
  \<^item> Library calls whose results the pipeline only passes on are parameters, collected in
    the record \<open>lib\<close>: \<^verbatim>\<open>json.loads\<close>, \<^verbatim>\<open>json.dumps\<close> with and without
    \<^verbatim>\<open>sort_keys\<close>, and \<^verbatim>\<open>sha1(...).digest()\<close>.
  \<^item> What \<^verbatim>\<open>pd.read_csv\<close> and iterating an opened file give for a source file is part
    of the description of that file (\<open>src\<close>).
  \<^item> An exception is a value: a step returns \<open>Inl (e, s)\<close> when the source raises \<open>e\<close>
    in state \<open>s\<close>, and \<open>Inr s\<close> when it goes on.
  \<^item> The calls that may raise are: reading a source file, \<^verbatim>\<open>clean_cols\<close> on a value that
    is not a \<^verbatim>\<open>dict\<close>, \<^verbatim>\<open>int\<close> on the second line of the checkpoint, \<^verbatim>\<open>gzip.open\<close>,
    \<^verbatim>\<open>gz.write\<close>, \<^verbatim>\<open>gz.close\<close>, \<^verbatim>\<open>os.replace\<close> and \<^verbatim>\<open>ckpt.unlink\<close>. Listing the
    folder, writing the checkpoint, logging and printing are taken to succeed.
\<close>

subsection \<open>String helpers\<close>

text \<open>\<^verbatim>\<open>str.isspace\<close> for one character, on the code points below 256.\<close>

definition py_isspace :: "char \<Rightarrow> bool" where
  "py_isspace c = (of_char c \<in> {9, 10, 11, 12, 13, 28, 29, 30, 31, 32, 133, 160 :: nat})"

text \<open>\<^verbatim>\<open>s.strip()\<close>.\<close>

definition strip :: "string \<Rightarrow> string" where
  "strip s = rev (dropWhile py_isspace (rev (dropWhile py_isspace s)))"

text \<open>\<^verbatim>\<open>s.split(d)\<close> for a one-character separator: never an empty list.\<close>

fun split_on :: "char \<Rightarrow> string \<Rightarrow> string list" where
  "split_on d [] = [[]]"
| "split_on d (c # cs) =
     (let ws = split_on d cs
      in if c = d then [] # ws else (c # hd ws) # tl ws)"

text \<open>\<^verbatim>\<open>k.split(".")[-1]\<close>, the key \<^verbatim>\<open>clean_cols\<close> stores a value under.\<close>

definition clean_key :: "string \<Rightarrow> string" where
  "clean_key k = last (split_on CHR ''.'' k)"

text \<open>\<^verbatim>\<open>s.rfind(c)\<close>, with \<open>None\<close> for Python's \<open>-1\<close>.\<close>

fun rfind_at :: "char \<Rightarrow> string \<Rightarrow> nat \<Rightarrow> nat option" where
  "rfind_at c [] i = None"
| "rfind_at c (x # xs) i =
     (case rfind_at c xs (Suc i) of
        Some j \<Rightarrow> Some j
      | None \<Rightarrow> if x = c then Some i else None)"

definition rfind :: "char \<Rightarrow> string \<Rightarrow> nat option" where
  "rfind c s = rfind_at c s 0"

text \<open>
  \<^verbatim>\<open>PurePath.suffix\<close> of a file name:
  \<^verbatim>\<open>i = name.rfind('.'); return name[i:] if 0 < i < len(name) - 1 else ''\<close>.
\<close>

definition path_suffix :: "string \<Rightarrow> string" where
  "path_suffix name =
     (case rfind CHR ''.'' name of
        None \<Rightarrow> []
      | Some i \<Rightarrow> if 0 < i \<and> i < length name - 1 then drop i name else [])"

text \<open>\<^verbatim>\<open>str.lower\<close> for one character, on the code points below 256.\<close>

definition lower_char :: "char \<Rightarrow> char" where
  "lower_char c =
     (let n = of_char c :: nat
      in if (65 \<le> n \<and> n \<le> 90) \<or> (192 \<le> n \<and> n \<le> 222 \<and> n \<noteq> 215)
         then char_of (n + 32) else c)"

definition lower :: "string \<Rightarrow> string" where
  "lower s = map lower_char s"

text \<open>\<^verbatim>\<open>sub in s\<close> on strings: \<open>sub\<close> occurs in \<open>s\<close> as a contiguous piece.\<close>

fun py_in :: "string \<Rightarrow> string \<Rightarrow> bool" where
  "py_in sub [] = (sub = [])"
| "py_in sub (c # cs) = (prefix sub (c # cs) \<or> py_in sub cs)"

subsection \<open>Records, library calls, exceptions\<close>

type_synonym 'v row = "(string \<times> 'v) list"

datatype exn = ValueError | OSError | ParserError | AttributeError | UnboundLocalError

text \<open>
  The outcome of \<^verbatim>\<open>json.loads(line)\<close>: a JSON object (a \<^verbatim>\<open>dict\<close>), some other JSON
  value (a list, a number, a string, ...), or the exception \<^verbatim>\<open>json.JSONDecodeError\<close>.
\<close>

datatype 'v parsed = Obj "'v row" | Other | JSONDecodeError

record ('v, 'h) lib =
  json_loads :: "string \<Rightarrow> 'v parsed"
  json_dumps :: "'v row \<Rightarrow> string"
  json_dumps_sorted :: "'v row \<Rightarrow> string"
  sha1 :: "string \<Rightarrow> 'h"

text \<open>
  A source file: its name, what \<^verbatim>\<open>pd.read_csv(path, chunksize=50_000)\<close> yields on it
  (the rows of its chunks, in order, and whether it raises after them), and what iterating
  \<^verbatim>\<open>path.open()\<close> yields (the lines, and whether it raises after them).
\<close>

record 'v src =
  fname :: string
  csv_records :: "'v row list"
  csv_raises :: bool
  text_lines :: "string list"
  text_raises :: bool

text \<open>Entries of the log file and lines printed on the console.\<close>

datatype event =
    SkippedFile string
  | BadJson string
  | DuplicateRows string
  | NewColumns string "string list"
  | PipelineStopped string exn

datatype msg =
    MissingMsg string
  | Summary string int int bool nat
  | ErrorMsg string exn
  | LogFileMsg

subsection \<open>\<^verbatim>\<open>clean_cols\<close> and \<^verbatim>\<open>row_hash\<close>\<close>

text \<open>
  \<^verbatim>\<open>out[k.split(".")[-1]] = v\<close> for each item in order: assigning to a key that is
  already there replaces its value in place, a new key goes to the end.
\<close>

definition clean_cols :: "'v row \<Rightarrow> 'v row" where
  "clean_cols rec = fold (\<lambda>(k, v) out. AList.update (clean_key k) v out) rec []"

definition row_hash :: "('v, 'h) lib \<Rightarrow> 'v row \<Rightarrow> 'h" where
  "row_hash L rec = sha1 L (json_dumps_sorted L rec)"

subsection \<open>The checkpoint file\<close>

text \<open>
  The checkpoint is a text file of two lines. Its first line is kept as it is; of the second
  only what \<^verbatim>\<open>int(f.readline().strip() or 0)\<close> makes of it matters: an integer (0 for an
  empty or missing line), or \<^verbatim>\<open>ValueError\<close>. \<^verbatim>\<open>save_ckpt\<close> writes the decimal form of
  the row count, which \<^verbatim>\<open>int\<close> reads back.
\<close>

datatype count_line = Count int | NotANumber

type_synonym ckpt_text = "string \<times> count_line"

definition load_ckpt :: "ckpt_text option \<Rightarrow> exn + (string option \<times> int)" where
  "load_ckpt cp =
     (case cp of
        None \<Rightarrow> Inr (None, 0)
      | Some (line1, line2) \<Rightarrow>
          (case line2 of
             NotANumber \<Rightarrow> Inl ValueError
           | Count n \<Rightarrow> Inr (Some (strip line1), n)))"

definition save_ckpt :: "string \<Rightarrow> int \<Rightarrow> ckpt_text option" where
  "save_ckpt filename n = Some (filename, Count n)"

subsection \<open>The state of one \<^verbatim>\<open>process\<close> call\<close>

text \<open>
  The locals \<^verbatim>\<open>stats\<close>, \<^verbatim>\<open>cols_seen\<close> and \<^verbatim>\<open>hashes\<close>, and the files the call writes:
  the lines sent to the stream \<^verbatim>\<open>gz\<close> (they are in the part-file once the stream is
  closed without error), the checkpoint, the log. \<open>budget\<close> says how many more
  \<^verbatim>\<open>gz.write\<close> calls succeed before one raises (\<open>None\<close>: all do). After a write has
  raised, the stream is \<open>stuck\<close>: it still holds the data it could not get rid of, and
  closing it will fail on them in the same way.
\<close>

record 'h run =
  rows :: int
  bad_json :: int
  dup_seen :: bool
  cols_seen :: "string set"
  hashes :: "'h set"
  part :: "string list"
  ckpt :: "ckpt_text option"
  budget :: "nat option"
  stuck :: bool
  logged :: "event list"

type_synonym 'h outcome = "(exn \<times> 'h run) + 'h run"

text \<open>
  The body of \<^verbatim>\<open>for rec in reader:\<close> in \<^verbatim>\<open>process\<close>, in its three parts: the
  duplicate check on the hash, the scan for new columns, and the write.
\<close>

definition mark_dup :: "('v, 'h) lib \<Rightarrow> string \<Rightarrow> 'v row \<Rightarrow> 'h run \<Rightarrow> 'h run" where
  "mark_dup L ds rec s =
     (let h = row_hash L rec;
          s1 = (if \<not> dup_seen s \<and> h \<in> hashes s
                then s\<lparr>dup_seen := True, logged := logged s @ [DuplicateRows ds]\<rparr>
                else s)
      in s1\<lparr>hashes := insert h (hashes s1)\<rparr>)"

text \<open>One round of \<^verbatim>\<open>for col in rec:\<close>, on the pair of \<^verbatim>\<open>new_cols\<close> and \<^verbatim>\<open>cols_seen\<close>.\<close>

definition note_col :: "string \<Rightarrow> string list \<times> string set \<Rightarrow> string list \<times> string set" where
  "note_col col acc =
     (if col \<notin> snd acc then (fst acc @ [col], insert col (snd acc)) else acc)"

definition track_cols :: "string \<Rightarrow> 'v row \<Rightarrow> 'h run \<Rightarrow> 'h run" where
  "track_cols ds rec s =
     (let acc = fold note_col (map fst rec) ([], cols_seen s);
          s1 = s\<lparr>cols_seen := snd acc\<rparr>
      in if fst acc \<noteq> []
         then s1\<lparr>logged := logged s1 @ [NewColumns ds (fst acc)]\<rparr>
         else s1)"

definition write_row :: "('v, 'h) lib \<Rightarrow> 'v row \<Rightarrow> 'h run \<Rightarrow> 'h outcome" where
  "write_row L rec s =
     (if budget s = Some 0 then Inl (OSError, s\<lparr>stuck := True\<rparr>)
      else Inr (s\<lparr>part := part s @ [json_dumps L rec],
                  budget := map_option (\<lambda>n. n - 1) (budget s),
                  rows := rows s + 1\<rparr>))"

definition emit :: "('v, 'h) lib \<Rightarrow> string \<Rightarrow> 'v row \<Rightarrow> 'h run \<Rightarrow> 'h outcome" where
  "emit L ds rec s = write_row L rec (track_cols ds rec (mark_dup L ds rec s))"

text \<open>\<^verbatim>\<open>for c in r: cols.add(c)\<close> in both generators, where \<^verbatim>\<open>cols\<close> is the caller's \<^verbatim>\<open>cols_seen\<close>.\<close>

definition add_cols :: "'v row \<Rightarrow> 'h run \<Rightarrow> 'h run" where
  "add_cols r s = s\<lparr>cols_seen := fold insert (map fst r) (cols_seen s)\<rparr>"

text \<open>
  \<^verbatim>\<open>csv_rows\<close> driven by the loop of \<^verbatim>\<open>process\<close>: the generator cleans a row, adds its keys
  to \<^verbatim>\<open>cols\<close> and yields it; the loop body runs; the generator resumes. Chunk boundaries do
  not show.
\<close>

fun csv_loop :: "('v, 'h) lib \<Rightarrow> string \<Rightarrow> 'v row list \<Rightarrow> bool \<Rightarrow> 'h run \<Rightarrow> 'h outcome" where
  "csv_loop L ds [] raises s = (if raises then Inl (ParserError, s) else Inr s)"
| "csv_loop L ds (r0 # rest) raises s =
     (let r = clean_cols r0
      in case emit L ds r (add_cols r s) of
           Inl failure \<Rightarrow> Inl failure
         | Inr s' \<Rightarrow> csv_loop L ds rest raises s')"

text \<open>
  \<^verbatim>\<open>json_rows\<close> driven by the loop of \<^verbatim>\<open>process\<close>. A value that is not a \<^verbatim>\<open>dict\<close> has no
  \<^verbatim>\<open>items\<close>: \<^verbatim>\<open>clean_cols\<close> raises \<^verbatim>\<open>AttributeError\<close>, which the generator does not catch.
\<close>

fun json_loop ::
  "('v, 'h) lib \<Rightarrow> string \<Rightarrow> string \<Rightarrow> string list \<Rightarrow> bool \<Rightarrow> 'h run \<Rightarrow> 'h outcome" where
  "json_loop L ds path [] raises s = (if raises then Inl (OSError, s) else Inr s)"
| "json_loop L ds path (line0 # rest) raises s =
     (let line = strip line0
      in if line = [] then json_loop L ds path rest raises s
         else case json_loads L line of
                JSONDecodeError \<Rightarrow>
                  json_loop L ds path rest raises
                    (s\<lparr>bad_json := bad_json s + 1, logged := logged s @ [BadJson path]\<rparr>)
              | Other \<Rightarrow> Inl (AttributeError, s)
              | Obj d \<Rightarrow>
                  (let r = clean_cols d
                   in case emit L ds r (add_cols r s) of
                        Inl failure \<Rightarrow> Inl failure
                      | Inr s' \<Rightarrow> json_loop L ds path rest raises s'))"

text \<open>
  The body of \<^verbatim>\<open>for src in sorted(folder.iterdir()):\<close>. The test \<^verbatim>\<open>ext in (".json")\<close> is a
  substring test on the string \<^verbatim>\<open>".json"\<close>. Both \<^verbatim>\<open>continue\<close> branches leave the
  checkpoint alone.
\<close>

definition skipped_by_name :: "string option \<Rightarrow> string \<Rightarrow> bool" where
  "skipped_by_name last_done name =
     (case last_done of None \<Rightarrow> False | Some l \<Rightarrow> l \<noteq> [] \<and> name \<le> l)"

definition do_file ::
  "('v, 'h) lib \<Rightarrow> string \<Rightarrow> string option \<Rightarrow> 'v src \<Rightarrow> 'h run \<Rightarrow> 'h outcome" where
  "do_file L ds last_done f s =
     (if skipped_by_name last_done (fname f) then Inr s
      else
        let ext = lower (path_suffix (fname f))
        in if ext = ''.csv'' then
             (case csv_loop L ds (csv_records f) (csv_raises f) s of
                Inl failure \<Rightarrow> Inl failure
              | Inr s' \<Rightarrow> Inr (s'\<lparr>ckpt := save_ckpt (fname f) (rows s')\<rparr>))
           else if py_in ext ''.json'' then
             (case json_loop L ds (fname f) (text_lines f) (text_raises f) s of
                Inl failure \<Rightarrow> Inl failure
              | Inr s' \<Rightarrow> Inr (s'\<lparr>ckpt := save_ckpt (fname f) (rows s')\<rparr>))
           else Inr (s\<lparr>logged := logged s @ [SkippedFile (fname f)]\<rparr>))"

fun loop_files ::
  "('v, 'h) lib \<Rightarrow> string \<Rightarrow> string option \<Rightarrow> 'v src list \<Rightarrow> 'h run \<Rightarrow> 'h outcome" where
  "loop_files L ds last_done [] s = Inr s"
| "loop_files L ds last_done (f # fs) s =
     (case do_file L ds last_done f s of
        Inl failure \<Rightarrow> Inl failure
      | Inr s' \<Rightarrow> loop_files L ds last_done fs s')"

subsection \<open>\<^verbatim>\<open>process\<close> and \<^verbatim>\<open>run_all\<close>\<close>

text \<open>
  What \<^verbatim>\<open>process(ds)\<close> finds: the folder \<^verbatim>\<open>raw_data/ds\<close> (\<open>None\<close> when it is not a
  directory), whether \<^verbatim>\<open>gzip.open\<close> of the part-file raises, the write budget, whether
  \<^verbatim>\<open>gz.close()\<close> raises while it flushes (the stream writes through buffers, so rows
  accepted by \<^verbatim>\<open>gz.write\<close> may reach the disk only then), how many of the lines sent
  through the stream are in the part-file when closing has failed, and whether
  \<^verbatim>\<open>os.replace\<close> and \<^verbatim>\<open>ckpt.unlink\<close> raise.
\<close>

record 'v dataset =
  folder :: "'v src list option"
  gzip_open_raises :: bool
  write_budget :: "nat option"
  close_raises :: bool
  flushed_on_failure :: nat
  replace_raises :: bool
  unlink_raises :: bool

text \<open>
  The output directory, the log and the console. The three files of a dataset are
  \<^verbatim>\<open>ds.ckpt\<close>, \<^verbatim>\<open>ds.json.gz.part\<close> and \<^verbatim>\<open>ds.json.gz\<close>; \<open>open_gz\<close> holds the datasets
  whose part-file stream is open.
\<close>

record world =
  ckpt_file :: "string \<Rightarrow> ckpt_text option"
  part_file :: "string \<Rightarrow> string list option"
  final_file :: "string \<Rightarrow> string list option"
  open_gz :: "string set"
  logfile :: "event list"
  console :: "msg list"

text \<open>
  How a \<^verbatim>\<open>process\<close> call ends: it returns (the folder was missing, the run finished, or an
  exception was caught and reported by the handler), or an exception leaves the function.
\<close>

datatype status = Missing | Done | Failed exn | Raised exn

text \<open>
  What the part-file holds once \<^verbatim>\<open>gzip.open(part, mode)\<close> has returned, where
  \<^verbatim>\<open>mode = "at" if rows_done else "wt"\<close>: appending keeps the old lines (a missing file is
  created empty), writing empties the file.
\<close>

definition part_on_open :: "int \<Rightarrow> string list option \<Rightarrow> string list" where
  "part_on_open rows_done old =
     (if rows_done \<noteq> 0 then (case old of None \<Rightarrow> [] | Some ls \<Rightarrow> ls) else [])"

text \<open>The state \<^verbatim>\<open>process\<close> starts its loop in.\<close>

definition init_run :: "'v dataset \<Rightarrow> string \<Rightarrow> int \<Rightarrow> world \<Rightarrow> 'h run" where
  "init_run env ds rows_done w =
     \<lparr>rows = rows_done, bad_json = 0, dup_seen = False, cols_seen = {}, hashes = {},
      part = part_on_open rows_done (part_file w ds),
      ckpt = ckpt_file w ds,
      budget = write_budget env,
      stuck = False,
      logged = logfile w\<rparr>"

text \<open>
  \<^verbatim>\<open>gz.close()\<close> on the open stream raises when the stream is stuck or the flush fails;
  either way the stream is closed afterwards, and closing it once more does nothing. When
  it has raised, the part-file holds what it held on opening and the first
  \<open>flushed_on_failure\<close> lines of this run.
\<close>

definition close_fails :: "'v dataset \<Rightarrow> 'h run \<Rightarrow> bool" where
  "close_fails env s = (stuck s \<or> close_raises env)"

definition part_after_failed_close :: "'v dataset \<Rightarrow> string list \<Rightarrow> 'h run \<Rightarrow> string list" where
  "part_after_failed_close env opened s =
     take (length opened + flushed_on_failure env) (part s)"

text \<open>
  The world once the call is done with the stream: the stream is closed, the part-file
  holds \<open>p\<close>, and the checkpoint and the log are as the loop left them.
\<close>

definition closed_with :: "world \<Rightarrow> string \<Rightarrow> 'h run \<Rightarrow> string list option \<Rightarrow> world" where
  "closed_with w ds s p =
     w\<lparr>open_gz := open_gz w - {ds},
       part_file := (part_file w)(ds := p),
       ckpt_file := (ckpt_file w)(ds := ckpt s),
       logfile := logged s\<rparr>"

text \<open>\<^verbatim>\<open>logging.exception(...)\<close> and \<^verbatim>\<open>print("error processing", ...)\<close> in the handler.\<close>

definition reported :: "world \<Rightarrow> string \<Rightarrow> exn \<Rightarrow> world" where
  "reported w ds e =
     w\<lparr>logfile := logfile w @ [PipelineStopped ds e],
       console := console w @ [ErrorMsg ds e]\<rparr>"

text \<open>
  What follows the loop over the files, in the world \<open>w1\<close> with the stream open, where
  the part-file held \<open>opened\<close> when the stream was opened.

  When the loop has raised, the handler starts with \<^verbatim>\<open>gz.close()\<close>: if that raises, its
  exception leaves \<^verbatim>\<open>process\<close> and nothing is logged or printed; if not, the handler
  logs, prints and returns.

  When the loop has ended, \<^verbatim>\<open>gz.close()\<close>, \<^verbatim>\<open>os.replace(part, final)\<close>,
  \<^verbatim>\<open>ckpt.unlink(missing_ok=True)\<close> and the summary follow, still inside the \<^verbatim>\<open>try\<close>:
  the first call that raises sends control to the handler, where \<^verbatim>\<open>gz.close()\<close> finds the
  stream closed.
\<close>

definition after_loop ::
  "'v dataset \<Rightarrow> string \<Rightarrow> world \<Rightarrow> string list \<Rightarrow> 'h outcome \<Rightarrow> status \<times> world" where
  "after_loop env ds w1 opened r =
     (case r of
        Inl (e, s) \<Rightarrow>
          if close_fails env s then
            (Raised OSError,
             closed_with w1 ds s (Some (part_after_failed_close env opened s)))
          else
            (Failed e, reported (closed_with w1 ds s (Some (part s))) ds e)
      | Inr s \<Rightarrow>
          if close_fails env s then
            (Failed OSError,
             reported (closed_with w1 ds s (Some (part_after_failed_close env opened s)))
               ds OSError)
          else if replace_raises env then
            (Failed OSError, reported (closed_with w1 ds s (Some (part s))) ds OSError)
          else
            (let w2 = (closed_with w1 ds s None)
                        \<lparr>final_file := (final_file w1)(ds := Some (part s))\<rparr>
             in if unlink_raises env then (Failed OSError, reported w2 ds OSError)
                else
                  (Done,
                   w2\<lparr>ckpt_file := (ckpt_file w2)(ds := None),
                      console := console w2 @
                        [Summary ds (rows s) (bad_json s) (dup_seen s)
                           (card (cols_seen s))]\<rparr>)))"

text \<open>
  \<^verbatim>\<open>load_ckpt\<close> is called before the \<^verbatim>\<open>try\<close>, so its \<^verbatim>\<open>ValueError\<close> leaves
  \<^verbatim>\<open>process\<close>. When \<^verbatim>\<open>gzip.open\<close> raises, \<^verbatim>\<open>gz\<close> is still unbound in the handler, whose
  first statement \<^verbatim>\<open>gz.close()\<close> raises \<^verbatim>\<open>UnboundLocalError\<close>. Otherwise the stream is
  open while the files are read.
\<close>

definition process ::
  "('v, 'h) lib \<Rightarrow> 'v dataset \<Rightarrow> string \<Rightarrow> world \<Rightarrow> status \<times> world" where
  "process L env ds w =
     (case folder env of
        None \<Rightarrow> (Missing, w\<lparr>console := console w @ [MissingMsg ds]\<rparr>)
      | Some files \<Rightarrow>
          (case load_ckpt (ckpt_file w ds) of
             Inl e \<Rightarrow> (Raised e, w)
           | Inr (last_done, rows_done) \<Rightarrow>
               if gzip_open_raises env then (Raised UnboundLocalError, w)
               else
                 after_loop env ds (w\<lparr>open_gz := insert ds (open_gz w)\<rparr>)
                   (part_on_open rows_done (part_file w ds))
                   (loop_files L ds last_done (sort_key fname files)
                      (init_run env ds rows_done w))))"

text \<open>
  \<^verbatim>\<open>run_all\<close>: the loop has no handler of its own, so an exception that leaves
  \<^verbatim>\<open>process\<close> ends it, and the final \<^verbatim>\<open>print\<close> is not reached.
\<close>

fun run_loop ::
  "('v, 'h) lib \<Rightarrow> (string \<Rightarrow> 'v dataset) \<Rightarrow> string list \<Rightarrow> world \<Rightarrow> exn option \<times> world" where
  "run_loop L env [] w = (None, w)"
| "run_loop L env (d # ds) w =
     (case process L (env d) d w of
        (Raised e, w') \<Rightarrow> (Some e, w')
      | (_, w') \<Rightarrow> run_loop L env ds w')"

definition run_all ::
  "('v, 'h) lib \<Rightarrow> (string \<Rightarrow> 'v dataset) \<Rightarrow> world \<Rightarrow> exn option \<times> world" where
  "run_all L env w =
     (case run_loop L env [''orders'', ''playlist_track'', ''track_facts'', ''tracks''] w of
        (Some e, w') \<Rightarrow> (Some e, w')
      | (None, w') \<Rightarrow> (None, w'\<lparr>console := console w' @ [LogFileMsg]\<rparr>))"

section \<open>Reference descriptions\<close>

text \<open>
  The records a run is expected to deliver, described without the loops: the parsed rows
  of a file (the rows of a table, or the objects of the non-blank lines that decode), their
  cleaned form, and the records of all files a run does not skip by name.
\<close>

definition json_parsed :: "('v, 'h) lib \<Rightarrow> string list \<Rightarrow> 'v row list" where
  "json_parsed L lines =
     concat (map (\<lambda>line. if strip line = [] then []
                          else (case json_loads L (strip line) of Obj d \<Rightarrow> [d] | _ \<Rightarrow> []))
                 lines)"

definition malformed :: "('v, 'h) lib \<Rightarrow> string list \<Rightarrow> string list" where
  "malformed L lines =
     filter (\<lambda>line. strip line \<noteq> [] \<and> json_loads L (strip line) = JSONDecodeError) lines"

definition parsed_records :: "('v, 'h) lib \<Rightarrow> 'v src \<Rightarrow> 'v row list" where
  "parsed_records L f =
     (let ext = lower (path_suffix (fname f))
      in if ext = ''.csv'' then csv_records f
         else if py_in ext ''.json'' then json_parsed L (text_lines f)
         else [])"

definition records_of :: "('v, 'h) lib \<Rightarrow> 'v src \<Rightarrow> 'v row list" where
  "records_of L f = map clean_cols (parsed_records L f)"

definition run_records :: "('v, 'h) lib \<Rightarrow> string option \<Rightarrow> 'v src list \<Rightarrow> 'v row list" where
  "run_records L last_done files =
     concat (map (records_of L) (filter (\<lambda>f. \<not> skipped_by_name last_done (fname f)) files))"

text \<open>A list of hashes repeats when two of its members are equal or one is in the set already.\<close>

definition repeats :: "'h set \<Rightarrow> 'h list \<Rightarrow> bool" where
  "repeats H hs = (\<not> distinct hs \<or> set hs \<inter> H \<noteq> {})"

text \<open>State \<open>s'\<close> is state \<open>s\<close> after exactly the records \<open>recs\<close> went through the loop body.\<close>

definition advanced :: "('v, 'h) lib \<Rightarrow> 'v row list \<Rightarrow> 'h run \<Rightarrow> 'h run \<Rightarrow> bool" where
  "advanced L recs s s' =
     (part s' = part s @ map (json_dumps L) recs \<and>
      rows s' = rows s + int (length recs) \<and>
      hashes s' = hashes s \<union> row_hash L ` set recs \<and>
      cols_seen s' = cols_seen s \<union> (\<Union>r \<in> set recs. fst ` set r) \<and>
      dup_seen s' = (dup_seen s \<or> repeats (hashes s) (map (row_hash L) recs)))"

fun is_new_columns :: "event \<Rightarrow> bool" where
  "is_new_columns (NewColumns ds cs) = True"
| "is_new_columns e = False"

definition state_of :: "'h outcome \<Rightarrow> 'h run" where
  "state_of r = (case r of Inl (e, s) \<Rightarrow> s | Inr s \<Rightarrow> s)"

text \<open>What every step keeps, whether it raises or not.\<close>

definition kept :: "'h run \<Rightarrow> 'h run \<Rightarrow> bool" where
  "kept s s' =
     (prefix (part s) (part s') \<and>
      (ckpt s \<noteq> None \<longrightarrow> ckpt s' \<noteq> None) \<and>
      (dup_seen s \<longrightarrow> dup_seen s') \<and>
      filter is_new_columns (logged s') = filter is_new_columns (logged s))"

section \<open>Concrete inputs\<close>

text \<open>
  A small instance of the library for running the model: values are kept as their text,
  \<open>show_row\<close> prints a record, the digest of a text is the text itself, and \<open>toy_loads\<close>
  decodes the handful of lines the examples use (anything else is malformed).
\<close>

definition show_row :: "string row \<Rightarrow> string" where
  "show_row r = concat (map (\<lambda>(k, v). k @ ''='' @ v @ '';'') r)"

definition toy_loads :: "string \<Rightarrow> string parsed" where
  "toy_loads line =
     (if line = ''{a.x: 1}'' then Obj [(''a.x'', ''1'')]
      else if line = ''{y: 2, x: 1}'' then Obj [(''y'', ''2''), (''x'', ''1'')]
      else if line = ''{x: 1, y: 2}'' then Obj [(''x'', ''1''), (''y'', ''2'')]
      else if line = ''{z: 3}'' then Obj [(''z'', ''3'')]
      else if line = ''[1]'' then Other
      else JSONDecodeError)"

definition toy :: "(string, string) lib" where
  "toy = \<lparr>json_loads = toy_loads, json_dumps = show_row,
          json_dumps_sorted = (\<lambda>r. show_row (sort_key fst r)), sha1 = (\<lambda>text. text)\<rparr>"

definition text_file :: "string \<Rightarrow> string list \<Rightarrow> string src" where
  "text_file name lines =
     \<lparr>fname = name, csv_records = [], csv_raises = True, text_lines = lines, text_raises = False\<rparr>"

definition empty_world :: world where
  "empty_world =
     \<lparr>ckpt_file = (\<lambda>ds. None), part_file = (\<lambda>ds. None), final_file = (\<lambda>ds. None),
      open_gz = {}, logfile = [], console = []\<rparr>"

definition fresh_run :: "string run" where
  "fresh_run =
     \<lparr>rows = 0, bad_json = 0, dup_seen = False, cols_seen = {}, hashes = {}, part = [],
      ckpt = None, budget = None, stuck = False, logged = []\<rparr>"

text \<open>
  A dataset over a given folder in which no library call fails.
\<close>

definition quiet :: "string src list \<Rightarrow> string dataset" where
  "quiet files =
     \<lparr>folder = Some files, gzip_open_raises = False, write_budget = None,
      close_raises = False, flushed_on_failure = 0, replace_raises = False,
      unlink_raises = False\<rparr>"

text \<open>
  The folder of the examples: two line-JSON files, listed out of order. In \<open>broken_files\<close>
  the second line of \<^verbatim>\<open>b.json\<close> is a JSON list; a run over it stops there, and
  \<open>interrupted_world\<close> is what it leaves behind. \<open>resumed_world\<close> is what a second run
  makes of that once the line is repaired, and \<open>finished_world\<close> the result of an
  undisturbed first run over the repaired folder.
\<close>

definition two_files :: "string src list" where
  "two_files =
     [text_file ''b.json'' [''{y: 2, x: 1}'', ''{z: 3}''],
      text_file ''a.json'' [''{a.x: 1}'']]"

definition broken_files :: "string src list" where
  "broken_files =
     [text_file ''b.json'' [''{y: 2, x: 1}'', ''[1]''],
      text_file ''a.json'' [''{a.x: 1}'']]"

definition tracks_env :: "nat option \<Rightarrow> string dataset" where
  "tracks_env b = (quiet two_files)\<lparr>write_budget := b\<rparr>"

definition broken_env :: "string dataset" where
  "broken_env = quiet broken_files"

definition interrupted_world :: world where
  "interrupted_world = snd (process toy broken_env ''tracks'' empty_world)"

definition resumed_world :: world where
  "resumed_world = snd (process toy (tracks_env None) ''tracks'' interrupted_world)"

definition finished_world :: world where
  "finished_world = snd (process toy (tracks_env None) ''tracks'' empty_world)"

text \<open>
  A run over the repaired folder in which \<^verbatim>\<open>gz.close()\<close> raises after the last file and
  none of the buffered rows has reached the part-file: \<open>unflushed_world\<close> is what it leaves
  behind, and \<open>exposed_world\<close> what an undisturbed second run makes of that.
\<close>

definition full_disk_env :: "string dataset" where
  "full_disk_env = (quiet two_files)\<lparr>close_raises := True\<rparr>"

definition unflushed_world :: world where
  "unflushed_world = snd (process toy full_disk_env ''tracks'' empty_world)"

definition exposed_world :: world where
  "exposed_world = snd (process toy (tracks_env None) ''tracks'' unflushed_world)"

text \<open>
  A file of three lines that decode and two that do not; two files whose first and third
  record differ only in the order of their keys; a dataset with a single record; a run in
  which \<^verbatim>\<open>gzip.open\<close> fails for the first dataset; a checkpoint whose second line is not
  a number.
\<close>

definition five_lines :: "string src" where
  "five_lines =
     text_file ''t.json'' [''{a.x: 1}'', ''oops'', ''{y: 2, x: 1}'', ''{z: 3'', ''{z: 3}'']"

definition dup_files :: "string src list" where
  "dup_files =
     [text_file ''a.json'' [''{y: 2, x: 1}'', ''{z: 3}''],
      text_file ''b.json'' [''{x: 1, y: 2}'', ''{a.x: 1}'']]"

definition one_column :: "string dataset" where
  "one_column = quiet [text_file ''a.json'' [''{z: 3}'']]"

definition four_datasets :: "string \<Rightarrow> string dataset" where
  "four_datasets d =
     (if d = ''orders'' then (quiet [])\<lparr>gzip_open_raises := True\<rparr> else tracks_env None)"

definition bad_ckpt_world :: world where
  "bad_ckpt_world = empty_world\<lparr>ckpt_file := (\<lambda>ds. None)(''orders'' := Some (''a.json'', NotANumber))\<rparr>"

section \<open>The column normalizer\<close>

lemma split_on_not_Nil: "split_on d s \<noteq> []"
  by (induction s) (auto simp: Let_def)

lemma split_on_no_separator: "d \<notin> set k \<Longrightarrow> split_on d k = [k]"
  by (induction k) (auto simp: Let_def)

lemma tl_split_on_append: "tl (split_on d (p @ d # s)) \<noteq> []"
  by (induction p) (auto simp: Let_def split_on_not_Nil)

lemma last_split_on_append: "last (split_on d (p @ d # s)) = last (split_on d s)"
proof (induction p)
  case Nil
  then show ?case by (simp add: Let_def split_on_not_Nil)
next
  case (Cons a p)
  have "last (tl (split_on d (p @ d # s))) = last (split_on d (p @ d # s))"
    using tl_split_on_append[of d p s] by (simp add: last_tl)
  then show ?case
    using Cons tl_split_on_append[of d p s] by (simp add: Let_def split_on_not_Nil)
qed

lemma keys_fold_update:
  "fst ` set (fold (\<lambda>(k, v) out. AList.update (f k) v out) rec acc) =
   f ` fst ` set rec \<union> fst ` set acc"
proof (induction rec arbitrary: acc)
  case Nil
  show ?case by simp
next
  case (Cons a rec)
  obtain k v where a: "a = (k, v)" by (cases a)
  have "fst ` set (AList.update (f k) v acc) = insert (f k) (fst ` set acc)"
    by (simp add: dom_update)
  then show ?case by (simp add: Cons.IH a)
qed

lemma keys_clean_cols: "fst ` set (clean_cols rec) = clean_key ` fst ` set rec"
  by (simp add: clean_cols_def keys_fold_update)

text \<open>
  C9. \<^verbatim>\<open>clean_cols\<close> stores each value under the part of its key after the last \<open>.\<close>:
  a key without \<open>.\<close> is kept as it is, a key \<open>p.s\<close> whose \<open>s\<close> has no \<open>.\<close> becomes \<open>s\<close>
  whatever \<open>p\<close> is, \<open>a.b.c\<close> becomes \<open>c\<close>, and the keys of the cleaned record are the
  normalized keys of the record.
\<close>

theorem clean_key_is_last_suffix:
  "(CHR ''.'' \<notin> set k \<longrightarrow> clean_key k = k) \<and>
   (CHR ''.'' \<notin> set s \<longrightarrow> clean_key (p @ CHR ''.'' # s) = s) \<and>
   clean_key ''a.b.c'' = ''c'' \<and>
   fst ` set (clean_cols rec) = clean_key ` fst ` set rec"
  by (simp add: clean_key_def split_on_no_separator last_split_on_append keys_clean_cols)

theorem clean_key_is_last_suffix_witness:
  "CHR ''.'' \<notin> set ''title'' \<and> clean_key ''title'' = ''title'' \<and>
   CHR ''.'' \<notin> set ''name'' \<and> clean_key (''track.meta'' @ CHR ''.'' # ''name'') = ''name'' \<and>
   fst ` set (clean_cols [(''track.meta.name'', 1 :: nat), (''title'', 2)]) =
     clean_key ` fst ` set [(''track.meta.name'', 1 :: nat), (''title'', 2)]"
  using clean_key_is_last_suffix
          [of "''title''" "''name''" "''track.meta''" "[(''track.meta.name'', 1 :: nat), (''title'', 2)]"]
  by simp

section \<open>The loop body\<close>

lemma state_of_simps [simp]: "state_of (Inl (e, s)) = s" "state_of (Inr s) = s"
  by (simp_all add: state_of_def)

lemma repeats_append:
  "repeats H (xs @ ys) = (repeats H xs \<or> repeats (H \<union> set xs) ys)"
  by (auto simp: repeats_def)

lemma advanced_refl: "advanced L [] s s"
  by (simp add: advanced_def repeats_def)

lemma advanced_trans:
  "advanced L xs s t \<Longrightarrow> advanced L ys t u \<Longrightarrow> advanced L (xs @ ys) s u"
  unfolding advanced_def
  by (simp add: repeats_append image_Un Un_assoc)

lemma kept_refl: "kept s s"
  by (simp add: kept_def)

lemma kept_trans: "kept s t \<Longrightarrow> kept t u \<Longrightarrow> kept s u"
  unfolding kept_def by (auto intro: prefix_order.trans)

lemma kept_part: "kept s t \<Longrightarrow> prefix (part s) (part t)"
  by (simp add: kept_def)

lemma kept_ckpt: "kept s t \<Longrightarrow> ckpt s \<noteq> None \<Longrightarrow> ckpt t \<noteq> None"
  by (simp add: kept_def)

lemma kept_logged:
  "kept s t \<Longrightarrow> filter is_new_columns (logged t) = filter is_new_columns (logged s)"
  by (simp add: kept_def)

lemma kept_save: "kept s t \<Longrightarrow> kept s (t\<lparr>ckpt := save_ckpt name n\<rparr>)"
  by (simp add: kept_def save_ckpt_def)

lemma snd_fold_note_col: "snd (fold note_col ks acc) = snd acc \<union> set ks"
  by (induction ks arbitrary: acc) (auto simp: note_col_def)

lemma fst_fold_note_col: "set ks \<subseteq> snd acc \<Longrightarrow> fst (fold note_col ks acc) = fst acc"
  by (induction ks arbitrary: acc) (auto simp: note_col_def)

lemma fold_insert: "fold insert xs A = A \<union> set xs"
  by (induction xs arbitrary: A) auto

lemma mark_dup_fields:
  "part (mark_dup L ds r s) = part s"
  "rows (mark_dup L ds r s) = rows s"
  "hashes (mark_dup L ds r s) = insert (row_hash L r) (hashes s)"
  "cols_seen (mark_dup L ds r s) = cols_seen s"
  "dup_seen (mark_dup L ds r s) = (dup_seen s \<or> row_hash L r \<in> hashes s)"
  "bad_json (mark_dup L ds r s) = bad_json s"
  "ckpt (mark_dup L ds r s) = ckpt s"
  "budget (mark_dup L ds r s) = budget s"
  by (simp_all add: mark_dup_def Let_def)

lemma mark_dup_logged:
  "filter is_new_columns (logged (mark_dup L ds r s)) = filter is_new_columns (logged s)"
  by (simp add: mark_dup_def Let_def)

lemma track_cols_fields:
  "part (track_cols ds r s) = part s"
  "rows (track_cols ds r s) = rows s"
  "hashes (track_cols ds r s) = hashes s"
  "cols_seen (track_cols ds r s) = cols_seen s \<union> fst ` set r"
  "dup_seen (track_cols ds r s) = dup_seen s"
  "bad_json (track_cols ds r s) = bad_json s"
  "ckpt (track_cols ds r s) = ckpt s"
  "budget (track_cols ds r s) = budget s"
  by (simp_all add: track_cols_def Let_def snd_fold_note_col)

lemma track_cols_logged:
  "fst ` set r \<subseteq> cols_seen s \<Longrightarrow> logged (track_cols ds r s) = logged s"
  by (simp add: track_cols_def Let_def fst_fold_note_col)

lemma add_cols_fields:
  "part (add_cols r s) = part s" "rows (add_cols r s) = rows s"
  "hashes (add_cols r s) = hashes s"
  "cols_seen (add_cols r s) = cols_seen s \<union> fst ` set r"
  "dup_seen (add_cols r s) = dup_seen s" "bad_json (add_cols r s) = bad_json s"
  "ckpt (add_cols r s) = ckpt s" "budget (add_cols r s) = budget s"
  "logged (add_cols r s) = logged s"
  by (simp_all add: add_cols_def fold_insert)

lemma emit_Inr:
  assumes "emit L ds r s = Inr s'"
  shows "part s' = part s @ [json_dumps L r]"
    and "rows s' = rows s + 1"
    and "hashes s' = insert (row_hash L r) (hashes s)"
    and "cols_seen s' = cols_seen s \<union> fst ` set r"
    and "dup_seen s' = (dup_seen s \<or> row_hash L r \<in> hashes s)"
    and "bad_json s' = bad_json s"
    and "ckpt s' = ckpt s"
    and "budget s' = map_option (\<lambda>n. n - 1) (budget s)"
    and "budget s \<noteq> Some 0"
proof -
  let ?t = "track_cols ds r (mark_dup L ds r s)"
  from assms have b: "budget ?t \<noteq> Some 0"
    and s': "s' = ?t\<lparr>part := part ?t @ [json_dumps L r],
                        budget := map_option (\<lambda>n. n - 1) (budget ?t),
                        rows := rows ?t + 1\<rparr>"
    by (auto simp: emit_def write_row_def split: if_splits)
  show "part s' = part s @ [json_dumps L r]" "rows s' = rows s + 1"
    "hashes s' = insert (row_hash L r) (hashes s)"
    "cols_seen s' = cols_seen s \<union> fst ` set r"
    "dup_seen s' = (dup_seen s \<or> row_hash L r \<in> hashes s)"
    "bad_json s' = bad_json s" "ckpt s' = ckpt s"
    "budget s' = map_option (\<lambda>n. n - 1) (budget s)"
    by (simp_all add: s' mark_dup_fields track_cols_fields)
  show "budget s \<noteq> Some 0"
    using b by (simp add: mark_dup_fields track_cols_fields)
qed

lemma emit_Inl:
  assumes "emit L ds r s = Inl (e, s')"
  shows "part s' = part s"
    and "ckpt s' = ckpt s"
    and "dup_seen s \<Longrightarrow> dup_seen s'"
    and "e = OSError"
    and "budget s = Some 0"
  using assms
  unfolding emit_def write_row_def
  by (auto split: if_splits simp: mark_dup_fields track_cols_fields)

lemma emit_succeeds:
  "budget s = None \<Longrightarrow> \<exists>s'. emit L ds r s = Inr s'"
  unfolding emit_def write_row_def by (simp add: mark_dup_fields track_cols_fields)

text \<open>
  The flag is set in the very round in which a record meets its own hash in the set, whether
  or not the write then succeeds; and a round that writes a record leaves its hash there.
\<close>

lemma emit_sets_dup_seen:
  "dup_seen s \<or> row_hash L rec \<in> hashes s \<Longrightarrow> dup_seen (state_of (emit L ds rec s))"
  by (auto simp: emit_def write_row_def mark_dup_fields track_cols_fields)

lemma emit_records_hash:
  "emit L ds rec s = Inr s' \<Longrightarrow> row_hash L rec \<in> hashes s'"
  by (simp add: emit_Inr)

lemma feed_advanced:
  assumes "emit L ds r (add_cols r s) = Inr s'"
  shows "advanced L [r] s s'"
  using emit_Inr[OF assms]
  by (simp add: advanced_def repeats_def add_cols_fields)

lemma feed_other:
  assumes "emit L ds r (add_cols r s) = Inr s'"
  shows "bad_json s' = bad_json s" "ckpt s' = ckpt s"
    "budget s' = map_option (\<lambda>n. n - 1) (budget s)"
  using emit_Inr[OF assms] by (simp_all add: add_cols_fields)

lemma feed_logged:
  "logged (state_of (emit L ds r (add_cols r s))) = logged (mark_dup L ds r s)"
proof -
  have "logged (track_cols ds r (mark_dup L ds r (add_cols r s))) =
        logged (mark_dup L ds r (add_cols r s))"
    by (rule track_cols_logged) (simp add: mark_dup_fields add_cols_fields)
  moreover have "logged (mark_dup L ds r (add_cols r s)) = logged (mark_dup L ds r s)"
    by (simp add: mark_dup_def Let_def add_cols_def)
  ultimately show ?thesis
    by (simp add: emit_def write_row_def)
qed

lemma feed_kept: "kept s (state_of (emit L ds r (add_cols r s)))"
proof (cases "emit L ds r (add_cols r s)")
  case (Inl p)
  obtain e s' where p: "p = (e, s')" by (cases p)
  from emit_Inl[OF Inl[unfolded p]] feed_logged[of L ds r s] Inl p
  show ?thesis by (simp add: kept_def add_cols_fields mark_dup_logged)
next
  case (Inr s')
  from emit_Inr[OF Inr] feed_logged[of L ds r s] Inr
  show ?thesis by (simp add: kept_def add_cols_fields mark_dup_logged)
qed

section \<open>The readers\<close>

lemma csv_loop_Inr:
  "csv_loop L ds rs raises s = Inr s' \<Longrightarrow>
   advanced L (map clean_cols rs) s s' \<and> bad_json s' = bad_json s \<and> ckpt s' = ckpt s"
proof (induction rs arbitrary: s)
  case Nil
  then show ?case by (simp add: advanced_refl split: if_splits)
next
  case (Cons r0 rs)
  from Cons.prems obtain t where t: "emit L ds (clean_cols r0) (add_cols (clean_cols r0) s) = Inr t"
    and rest: "csv_loop L ds rs raises t = Inr s'"
    by (auto simp: Let_def split: sum.splits)
  from Cons.IH[OF rest] feed_advanced[OF t] feed_other[OF t]
  show ?case using advanced_trans[of L "[clean_cols r0]" s t "map clean_cols rs" s'] by simp
qed

lemma csv_loop_kept: "kept s (state_of (csv_loop L ds rs raises s))"
proof (induction rs arbitrary: s)
  case Nil
  show ?case by (simp add: kept_refl)
next
  case (Cons r0 rs)
  let ?r = "clean_cols r0"
  show ?case
  proof (cases "emit L ds ?r (add_cols ?r s)")
    case (Inl p)
    then show ?thesis using feed_kept[of s L ds ?r] by (simp add: Let_def)
  next
    case (Inr t)
    then show ?thesis
      using feed_kept[of s L ds ?r] Cons.IH[of t] by (auto simp: Let_def intro: kept_trans)
  qed
qed

lemma json_parsed_Cons:
  "json_parsed L (line # rest) =
     (if strip line = [] then []
      else (case json_loads L (strip line) of Obj d \<Rightarrow> [d] | _ \<Rightarrow> [])) @ json_parsed L rest"
  by (simp add: json_parsed_def)

lemma json_loop_Inr:
  "json_loop L ds path ls raises s = Inr s' \<Longrightarrow>
   advanced L (map clean_cols (json_parsed L ls)) s s' \<and>
   bad_json s' = bad_json s + int (length (malformed L ls)) \<and> ckpt s' = ckpt s"
proof (induction ls arbitrary: s)
  case Nil
  then show ?case by (simp add: advanced_refl json_parsed_def malformed_def split: if_splits)
next
  case (Cons line ls)
  show ?case
  proof (cases "strip line = []")
    case True
    with Cons.prems have "json_loop L ds path ls raises s = Inr s'" by simp
    from Cons.IH[OF this] True show ?thesis
      by (simp add: json_parsed_Cons malformed_def)
  next
    case ne: False
    show ?thesis
    proof (cases "json_loads L (strip line)")
      case (Obj d)
      from Cons.prems ne Obj obtain t
        where t: "emit L ds (clean_cols d) (add_cols (clean_cols d) s) = Inr t"
        and rest: "json_loop L ds path ls raises t = Inr s'"
        by (auto simp: Let_def split: sum.splits)
      from Cons.IH[OF rest] feed_advanced[OF t] feed_other[OF t]
      show ?thesis
        using advanced_trans[of L "[clean_cols d]" s t "map clean_cols (json_parsed L ls)" s'] ne Obj
        by (simp add: json_parsed_Cons malformed_def)
    next
      case Other
      with Cons.prems ne show ?thesis by simp
    next
      case JSONDecodeError
      let ?t = "s\<lparr>bad_json := bad_json s + 1, logged := logged s @ [BadJson path]\<rparr>"
      from Cons.prems ne JSONDecodeError
      have rest: "json_loop L ds path ls raises ?t = Inr s'" by simp
      have "advanced L (map clean_cols (json_parsed L ls)) s s'"
        using Cons.IH[OF rest] by (simp add: advanced_def)
      then show ?thesis
        using Cons.IH[OF rest] ne JSONDecodeError
        by (simp add: json_parsed_Cons malformed_def)
    qed
  qed
qed

lemma json_loop_kept: "kept s (state_of (json_loop L ds path ls raises s))"
proof (induction ls arbitrary: s)
  case Nil
  show ?case by (simp add: kept_refl)
next
  case (Cons line ls)
  show ?case
  proof (cases "strip line = []")
    case True
    then show ?thesis using Cons.IH[of s] by simp
  next
    case ne: False
    show ?thesis
    proof (cases "json_loads L (strip line)")
      case (Obj d)
      let ?r = "clean_cols d"
      show ?thesis
      proof (cases "emit L ds ?r (add_cols ?r s)")
        case (Inl p)
        then show ?thesis using feed_kept[of s L ds ?r] ne Obj by (simp add: Let_def)
      next
        case (Inr t)
        then show ?thesis
          using feed_kept[of s L ds ?r] Cons.IH[of t] ne Obj
          by (auto simp: Let_def intro: kept_trans)
      qed
    next
      case Other
      then show ?thesis using ne by (simp add: kept_refl)
    next
      case JSONDecodeError
      let ?t = "s\<lparr>bad_json := bad_json s + 1, logged := logged s @ [BadJson path]\<rparr>"
      have "kept s ?t" by (simp add: kept_def)
      then show ?thesis
        using Cons.IH[of ?t] ne JSONDecodeError by (auto intro: kept_trans)
    qed
  qed
qed

lemma json_loop_succeeds:
  assumes "budget s = None" and "\<not> raises"
    and "\<forall>line \<in> set ls. strip line \<noteq> [] \<longrightarrow> json_loads L (strip line) \<noteq> Other"
  shows "\<exists>s'. json_loop L ds path ls raises s = Inr s'"
  using assms
proof (induction ls arbitrary: s)
  case Nil
  then show ?case by simp
next
  case (Cons line ls)
  show ?case
  proof (cases "strip line = []")
    case True
    then show ?thesis using Cons by simp
  next
    case ne: False
    show ?thesis
    proof (cases "json_loads L (strip line)")
      case (Obj d)
      let ?r = "clean_cols d"
      have "budget (add_cols ?r s) = None" using Cons.prems(1) by (simp add: add_cols_fields)
      from emit_succeeds[OF this] obtain t where t: "emit L ds ?r (add_cols ?r s) = Inr t" by blast
      from feed_other(3)[OF t] Cons.prems(1) have "budget t = None" by simp
      from Cons.IH[OF this Cons.prems(2)] Cons.prems(3)
      obtain s' where "json_loop L ds path ls raises t = Inr s'" by auto
      then show ?thesis using ne Obj t by (simp add: Let_def)
    next
      case Other
      then show ?thesis using Cons.prems(3) ne by simp
    next
      case JSONDecodeError
      let ?t = "s\<lparr>bad_json := bad_json s + 1, logged := logged s @ [BadJson path]\<rparr>"
      have "budget ?t = None" using Cons.prems(1) by simp
      from Cons.IH[OF this Cons.prems(2)] Cons.prems(3)
      obtain s' where "json_loop L ds path ls raises ?t = Inr s'" by auto
      then show ?thesis using ne JSONDecodeError by simp
    qed
  qed
qed

lemma strip_blank:
  assumes "\<forall>c \<in> set line. py_isspace c"
  shows "strip line = []"
proof -
  have d: "dropWhile py_isspace line = []"
    using assms by (simp only: dropWhile_eq_Nil_conv)
  show ?thesis unfolding strip_def d by simp
qed

text \<open>
  C10. In a line-JSON file, a line that is empty or holds whitespace only has no effect
  whatever: the loop goes on with the rest of the file from the very same state, so no
  record is written, \<open>bad_json\<close> is not incremented and nothing is logged.
\<close>

theorem blank_line_is_skipped:
  "\<forall>c \<in> set line. py_isspace c \<Longrightarrow>
   json_loop L ds path (line # rest) raises s = json_loop L ds path rest raises s"
  by (simp add: strip_blank)

theorem blank_line_is_skipped_witness:
  "json_loop toy ''tracks'' ''a.json'' [[CHR '' '', CHR 0x09, CHR 0x0A], ''{z: 3}''] False fresh_run =
   json_loop toy ''tracks'' ''a.json'' [''{z: 3}''] False fresh_run"
proof -
  have blank: "\<forall>c \<in> set [CHR '' '', CHR 0x09, CHR 0x0A]. py_isspace c"
    by (simp add: py_isspace_def)
  from blank_line_is_skipped[OF blank] show ?thesis .
qed

section \<open>One file, all files\<close>

lemma do_file_skipped:
  "skipped_by_name last_done (fname f) \<Longrightarrow> do_file L ds last_done f s = Inr s"
  by (simp add: do_file_def)

lemma do_file_Inr:
  assumes "do_file L ds last_done f s = Inr s'"
  shows "advanced L (if skipped_by_name last_done (fname f) then [] else records_of L f) s s'"
    and "bad_json s \<le> bad_json s'"
proof -
  have "advanced L (if skipped_by_name last_done (fname f) then [] else records_of L f) s s'
        \<and> bad_json s \<le> bad_json s'"
  proof (cases "skipped_by_name last_done (fname f)")
    case True
    with assms show ?thesis by (simp add: do_file_def advanced_refl)
  next
    case ns: False
    let ?ext = "lower (path_suffix (fname f))"
    show ?thesis
    proof (cases "?ext = ''.csv''")
      case True
      with assms ns obtain t where t: "csv_loop L ds (csv_records f) (csv_raises f) s = Inr t"
        and s': "s' = t\<lparr>ckpt := save_ckpt (fname f) (rows t)\<rparr>"
        by (auto simp: do_file_def Let_def split: sum.splits)
      from csv_loop_Inr[OF t] show ?thesis
        using ns True by (simp add: s' advanced_def records_of_def parsed_records_def)
    next
      case nc: False
      show ?thesis
      proof (cases "py_in ?ext ''.json''")
        case True
        with assms ns nc obtain t
          where t: "json_loop L ds (fname f) (text_lines f) (text_raises f) s = Inr t"
          and s': "s' = t\<lparr>ckpt := save_ckpt (fname f) (rows t)\<rparr>"
          by (auto simp: do_file_def Let_def split: sum.splits)
        from json_loop_Inr[OF t] show ?thesis
          using ns nc True by (simp add: s' advanced_def records_of_def parsed_records_def)
      next
        case False
        with assms ns nc have "s' = s\<lparr>logged := logged s @ [SkippedFile (fname f)]\<rparr>"
          by (auto simp: do_file_def Let_def)
        then show ?thesis
          using ns nc False
          by (simp add: advanced_def repeats_def records_of_def parsed_records_def)
      qed
    qed
  qed
  then show "advanced L (if skipped_by_name last_done (fname f) then [] else records_of L f) s s'"
    and "bad_json s \<le> bad_json s'" by simp_all
qed

lemma do_file_kept: "kept s (state_of (do_file L ds last_done f s))"
proof -
  have c: "kept s (state_of (case csv_loop L ds (csv_records f) (csv_raises f) s of
                Inl failure \<Rightarrow> Inl failure
              | Inr s' \<Rightarrow> Inr (s'\<lparr>ckpt := save_ckpt (fname f) (rows s')\<rparr>)))"
    using csv_loop_kept[of s L ds "csv_records f" "csv_raises f"]
    by (auto split: sum.splits intro: kept_save)
  have j: "kept s (state_of (case json_loop L ds (fname f) (text_lines f) (text_raises f) s of
                Inl failure \<Rightarrow> Inl failure
              | Inr s' \<Rightarrow> Inr (s'\<lparr>ckpt := save_ckpt (fname f) (rows s')\<rparr>)))"
    using json_loop_kept[of s L ds "fname f" "text_lines f" "text_raises f"]
    by (auto split: sum.splits intro: kept_save)
  have k: "kept s (s\<lparr>logged := logged s @ [SkippedFile (fname f)]\<rparr>)"
    by (simp add: kept_def)
  show ?thesis
    unfolding do_file_def Let_def using c j k by (simp add: kept_refl)
qed

lemma loop_files_Inr:
  "loop_files L ds last_done fs s = Inr s' \<Longrightarrow> advanced L (run_records L last_done fs) s s'"
proof (induction fs arbitrary: s)
  case Nil
  then show ?case by (simp add: run_records_def advanced_refl)
next
  case (Cons f fs)
  from Cons.prems obtain t where t: "do_file L ds last_done f s = Inr t"
    and rest: "loop_files L ds last_done fs t = Inr s'"
    by (auto split: sum.splits)
  have eq: "run_records L last_done (f # fs) =
      (if skipped_by_name last_done (fname f) then [] else records_of L f) @
      run_records L last_done fs"
    by (simp add: run_records_def)
  show ?case
    unfolding eq by (rule advanced_trans[OF do_file_Inr(1)[OF t] Cons.IH[OF rest]])
qed

lemma loop_files_kept: "kept s (state_of (loop_files L ds last_done fs s))"
proof (induction fs arbitrary: s)
  case Nil
  show ?case by (simp add: kept_refl)
next
  case (Cons f fs)
  show ?case
  proof (cases "do_file L ds last_done f s")
    case (Inl p)
    then show ?thesis using do_file_kept[of s L ds last_done f] by simp
  next
    case (Inr t)
    then show ?thesis
      using do_file_kept[of s L ds last_done f] Cons.IH[of t] by (auto intro: kept_trans)
  qed
qed

lemma loop_files_filter:
  "loop_files L ds last_done (filter (\<lambda>f. \<not> skipped_by_name last_done (fname f)) fs) s =
   loop_files L ds last_done fs s"
  by (induction fs arbitrary: s) (auto simp: do_file_skipped split: sum.splits)

lemma skipped_by_name_Some:
  "F \<noteq> [] \<Longrightarrow> (\<not> skipped_by_name (Some F) name) = (F < name)"
  by (auto simp: skipped_by_name_def)

lemma run_records_None: "run_records L None fs = concat (map (records_of L) fs)"
  by (simp add: run_records_def skipped_by_name_def)

lemma run_records_Some:
  "F \<noteq> [] \<Longrightarrow>
   run_records L (Some F) fs = concat (map (records_of L) (filter (\<lambda>f. F < fname f) fs))"
  by (simp add: run_records_def skipped_by_name_Some)

lemma keys_records_of:
  "(\<Union>r \<in> set (records_of L f). fst ` set r) =
   (\<Union>d \<in> set (parsed_records L f). clean_key ` fst ` set d)"
  by (simp add: records_of_def keys_clean_cols)

lemma loop_files_after:
  assumes "F \<noteq> []"
  shows "loop_files L ds (Some F) (sort_key fname (filter (\<lambda>f. F < fname f) files)) s =
         loop_files L ds (Some F) (sort_key fname files) s"
proof -
  have "sort_key fname (filter (\<lambda>f. F < fname f) files) =
        filter (\<lambda>f. \<not> skipped_by_name (Some F) (fname f)) (sort_key fname files)"
    by (simp add: filter_sort skipped_by_name_Some[OF assms])
  then show ?thesis by (simp add: loop_files_filter)
qed

text \<open>
  C5. A line-JSON file that is read to its end, with no line decoding to something other
  than an object and no write failing: the file is processed completely, each non-blank
  line that fails to decode adds one to \<open>bad_json\<close>, each line that decodes makes one
  written record, and the checkpoint afterwards names the file with the cumulative row
  count. With three lines that decode and two malformed ones that is three more rows and
  output lines, and two more malformed records.
\<close>

theorem malformed_lines_are_counted:
  assumes "\<not> skipped_by_name last_done (fname f)"
    and "lower (path_suffix (fname f)) \<noteq> ''.csv''"
    and "py_in (lower (path_suffix (fname f))) ''.json''"
    and "\<forall>line \<in> set (text_lines f). strip line \<noteq> [] \<longrightarrow> json_loads L (strip line) \<noteq> Other"
    and "\<not> text_raises f"
    and "budget s = None"
  shows "\<exists>s'. do_file L ds last_done f s = Inr s' \<and>
           bad_json s' = bad_json s + int (length (malformed L (text_lines f))) \<and>
           rows s' = rows s + int (length (json_parsed L (text_lines f))) \<and>
           part s' = part s @ map (json_dumps L) (map clean_cols (json_parsed L (text_lines f))) \<and>
           ckpt s' = Some (fname f, Count (rows s')) \<and>
           (length (json_parsed L (text_lines f)) = 3 \<and> length (malformed L (text_lines f)) = 2 \<longrightarrow>
              length (part s') = length (part s) + 3 \<and> rows s' = rows s + 3 \<and>
              bad_json s' = bad_json s + 2)"
proof -
  from json_loop_succeeds[OF assms(6) assms(5) assms(4)]
  obtain t where t: "json_loop L ds (fname f) (text_lines f) (text_raises f) s = Inr t" by blast
  let ?s' = "t\<lparr>ckpt := save_ckpt (fname f) (rows t)\<rparr>"
  have d: "do_file L ds last_done f s = Inr ?s'"
    using assms(1,2,3) t by (simp add: do_file_def Let_def)
  from json_loop_Inr[OF t] have
    "bad_json ?s' = bad_json s + int (length (malformed L (text_lines f)))"
    "rows ?s' = rows s + int (length (json_parsed L (text_lines f)))"
    "part ?s' = part s @ map (json_dumps L) (map clean_cols (json_parsed L (text_lines f)))"
    "ckpt ?s' = Some (fname f, Count (rows ?s'))"
    by (simp_all add: advanced_def save_ckpt_def)
  then show ?thesis using d by simp
qed

theorem malformed_lines_are_counted_witness:
  "\<not> skipped_by_name None (fname five_lines) \<and>
   lower (path_suffix (fname five_lines)) \<noteq> ''.csv'' \<and>
   py_in (lower (path_suffix (fname five_lines))) ''.json'' \<and>
   \<not> text_raises five_lines \<and> budget fresh_run = None \<and>
   length (json_parsed toy (text_lines five_lines)) = 3 \<and>
   length (malformed toy (text_lines five_lines)) = 2 \<and>
   (\<exists>s'. do_file toy ''tracks'' None five_lines fresh_run = Inr s' \<and>
         length (part s') = length (part fresh_run) + 3 \<and>
         rows s' = rows fresh_run + 3 \<and> bad_json s' = bad_json fresh_run + 2 \<and>
         ckpt s' = Some (fname five_lines, Count (rows s')))"
proof -
  have h1: "\<not> skipped_by_name None (fname five_lines)" by (simp add: skipped_by_name_def)
  have h2: "lower (path_suffix (fname five_lines)) \<noteq> ''.csv''" by code_simp
  have h3: "py_in (lower (path_suffix (fname five_lines))) ''.json''" by code_simp
  have h4: "\<forall>line \<in> set (text_lines five_lines).
      strip line \<noteq> [] \<longrightarrow> json_loads toy (strip line) \<noteq> Other" by code_simp
  have h5: "\<not> text_raises five_lines" by (simp add: five_lines_def text_file_def)
  have h6: "budget fresh_run = None" by (simp add: fresh_run_def)
  have n3: "length (json_parsed toy (text_lines five_lines)) = 3" by code_simp
  have n2: "length (malformed toy (text_lines five_lines)) = 2" by code_simp
  from malformed_lines_are_counted[OF h1 h2 h3 h4 h5 h6, of "''tracks''"] n3 n2
  have "\<exists>s'. do_file toy ''tracks'' None five_lines fresh_run = Inr s' \<and>
         length (part s') = length (part fresh_run) + 3 \<and>
         rows s' = rows fresh_run + 3 \<and> bad_json s' = bad_json fresh_run + 2 \<and>
         ckpt s' = Some (fname five_lines, Count (rows s'))"
    by auto
  then show ?thesis using h1 h2 h3 h5 h6 n3 n2 by (intro conjI)
qed

text \<open>
  C6. In a run whose records are, in order, \<open>xs\<close>, \<open>r\<close>, \<open>ys\<close>, \<open>r'\<close>, \<open>zs\<close>, where
  \<open>r\<close> and \<open>r'\<close> have the same sorted-key serialization: \<open>dup_seen\<close> is set at the
  end, whatever \<open>zs\<close> is (nothing at all, or any further records, duplicates or not), and
  every record, \<open>r'\<close> included, is in the output, in order. The flag is set in the very
  round of the loop body that \<open>r'\<close> goes through, in any state whose set of hashes holds
  the hash of \<open>r\<close>.
\<close>

theorem duplicate_flag_sticks:
  assumes "loop_files L ds last_done files s = Inr s'"
    and "run_records L last_done files = xs @ r # ys @ r' # zs"
    and "json_dumps_sorted L r = json_dumps_sorted L r'"
  shows "dup_seen s' \<and> part s' = part s @ map (json_dumps L) (xs @ r # ys @ r' # zs) \<and>
         (\<forall>t. row_hash L r \<in> hashes t \<longrightarrow> dup_seen (state_of (emit L ds r' t)))"
proof -
  from loop_files_Inr[OF assms(1)]
  have a: "advanced L (xs @ r # ys @ r' # zs) s s'" by (simp add: assms(2))
  have same: "row_hash L r = row_hash L r'" by (simp add: row_hash_def assms(3))
  then have "\<not> distinct (map (row_hash L) (xs @ r # ys @ r' # zs))" by simp
  then have "repeats (hashes s) (map (row_hash L) (xs @ r # ys @ r' # zs))"
    unfolding repeats_def by blast
  with a have "dup_seen s'" "part s' = part s @ map (json_dumps L) (xs @ r # ys @ r' # zs)"
    unfolding advanced_def by blast+
  moreover have "\<forall>t. row_hash L r \<in> hashes t \<longrightarrow> dup_seen (state_of (emit L ds r' t))"
    using emit_sets_dup_seen[of _ L r' ds] same by simp
  ultimately show ?thesis by blast
qed

theorem duplicate_flag_sticks_witness:
  "\<exists>s'. loop_files toy ''tracks'' None dup_files fresh_run = Inr s' \<and>
     run_records toy None dup_files =
       [] @ [(''y'', ''2''), (''x'', ''1'')] # [[(''z'', ''3'')]] @
            [(''x'', ''1''), (''y'', ''2'')] # [[(''x'', ''1'')]] \<and>
     json_dumps_sorted toy [(''y'', ''2''), (''x'', ''1'')] =
       json_dumps_sorted toy [(''x'', ''1''), (''y'', ''2'')] \<and>
     dup_seen s' \<and>
     part s' = part fresh_run @
       map (json_dumps toy)
         ([] @ [(''y'', ''2''), (''x'', ''1'')] # [[(''z'', ''3'')]] @
               [(''x'', ''1''), (''y'', ''2'')] # [[(''x'', ''1'')]]) \<and>
     row_hash toy [(''y'', ''2''), (''x'', ''1'')] \<in> hashes (fresh_run\<lparr>hashes := {''x=1;y=2;''}\<rparr>) \<and>
     dup_seen (state_of (emit toy ''tracks'' [(''x'', ''1''), (''y'', ''2'')]
                           (fresh_run\<lparr>hashes := {''x=1;y=2;''}\<rparr>)))"
proof -
  have "\<not> isl (loop_files toy ''tracks'' None dup_files fresh_run)" by code_simp
  then obtain s' where run: "loop_files toy ''tracks'' None dup_files fresh_run = Inr s'"
    by (cases "loop_files toy ''tracks'' None dup_files fresh_run") simp_all
  have recs: "run_records toy None dup_files =
       [] @ [(''y'', ''2''), (''x'', ''1'')] # [[(''z'', ''3'')]] @
            [(''x'', ''1''), (''y'', ''2'')] # [[(''x'', ''1'')]]"
    by code_simp
  have same: "json_dumps_sorted toy [(''y'', ''2''), (''x'', ''1'')] =
       json_dumps_sorted toy [(''x'', ''1''), (''y'', ''2'')]"
    by code_simp
  have known: "row_hash toy [(''y'', ''2''), (''x'', ''1'')] \<in>
       hashes (fresh_run\<lparr>hashes := {''x=1;y=2;''}\<rparr>)"
    by code_simp
  note t = duplicate_flag_sticks[OF run recs same]
  note flag = t[THEN conjunct1]
  note out = t[THEN conjunct2, THEN conjunct1]
  note round = t[THEN conjunct2, THEN conjunct2, rule_format, OF known]
  show ?thesis
    by (rule exI[of _ s'], intro conjI) (rule run recs same flag out known round)+
qed

section \<open>One dataset\<close>

lemma load_ckpt_None: "load_ckpt None = Inr (None, 0)"
  by (simp add: load_ckpt_def)

lemma closed_with_fields:
  "open_gz (closed_with w ds s p) = open_gz w - {ds}"
  "part_file (closed_with w ds s p) = (part_file w)(ds := p)"
  "ckpt_file (closed_with w ds s p) = (ckpt_file w)(ds := ckpt s)"
  "final_file (closed_with w ds s p) = final_file w"
  "logfile (closed_with w ds s p) = logged s"
  "console (closed_with w ds s p) = console w"
  by (simp_all add: closed_with_def)

lemma reported_fields:
  "open_gz (reported w ds e) = open_gz w"
  "part_file (reported w ds e) = part_file w"
  "ckpt_file (reported w ds e) = ckpt_file w"
  "final_file (reported w ds e) = final_file w"
  "logfile (reported w ds e) = logfile w @ [PipelineStopped ds e]"
  "console (reported w ds e) = console w @ [ErrorMsg ds e]"
  by (simp_all add: reported_def)

text \<open>The four ways into \<^verbatim>\<open>process\<close>, and what the call is in each.\<close>

lemma process_cases:
  obtains (missing) "folder env = None"
  | (bad_ckpt) files e where "folder env = Some files" "load_ckpt (ckpt_file w ds) = Inl e"
  | (no_open) files last_done R where "folder env = Some files"
      "load_ckpt (ckpt_file w ds) = Inr (last_done, R)" "gzip_open_raises env"
  | (opened) files last_done R where "folder env = Some files"
      "load_ckpt (ckpt_file w ds) = Inr (last_done, R)" "\<not> gzip_open_raises env"
proof (cases "folder env")
  case None
  then show ?thesis by (rule missing)
next
  case (Some files)
  show ?thesis
  proof (cases "load_ckpt (ckpt_file w ds)")
    case (Inl e)
    from bad_ckpt[OF Some Inl] show ?thesis .
  next
    case (Inr x)
    obtain last_done R where x: "x = (last_done, R)" by (cases x)
    show ?thesis
    proof (cases "gzip_open_raises env")
      case True
      from no_open[OF Some Inr[unfolded x] True] show ?thesis .
    next
      case False
      from opened[OF Some Inr[unfolded x] False] show ?thesis .
    qed
  qed
qed

lemma process_missing:
  "folder env = None \<Longrightarrow>
   process L env ds w = (Missing, w\<lparr>console := console w @ [MissingMsg ds]\<rparr>)"
  by (simp add: process_def)

lemma process_bad_ckpt:
  "folder env = Some files \<Longrightarrow> load_ckpt (ckpt_file w ds) = Inl e \<Longrightarrow>
   process L env ds w = (Raised e, w)"
  by (simp add: process_def)

lemma process_no_open:
  "folder env = Some files \<Longrightarrow> load_ckpt (ckpt_file w ds) = Inr (last_done, R) \<Longrightarrow>
   gzip_open_raises env \<Longrightarrow> process L env ds w = (Raised UnboundLocalError, w)"
  by (simp add: process_def)

lemma process_after_open:
  "folder env = Some files \<Longrightarrow> load_ckpt (ckpt_file w ds) = Inr (last_done, R) \<Longrightarrow>
   \<not> gzip_open_raises env \<Longrightarrow>
   process L env ds w =
     after_loop env ds (w\<lparr>open_gz := insert ds (open_gz w)\<rparr>)
       (part_on_open R (part_file w ds))
       (loop_files L ds last_done (sort_key fname files) (init_run env ds R w))"
  by (simp add: process_def)

text \<open>What follows the loop.\<close>

lemma after_loop_Done:
  assumes "after_loop env ds w1 opened r = (Done, w')"
  obtains s where "r = Inr s"
    and "\<not> close_fails env s" and "\<not> replace_raises env" and "\<not> unlink_raises env"
    and "w' = w1\<lparr>ckpt_file := (ckpt_file w1)(ds := None),
             part_file := (part_file w1)(ds := None),
             final_file := (final_file w1)(ds := Some (part s)),
             open_gz := open_gz w1 - {ds},
             logfile := logged s,
             console := console w1 @
               [Summary ds (rows s) (bad_json s) (dup_seen s) (card (cols_seen s))]\<rparr>"
  using assms unfolding after_loop_def Let_def closed_with_def reported_def
  by (auto split: sum.splits prod.splits if_splits)

lemma after_loop_status:
  "fst (after_loop env ds w1 opened (Inl (e, s))) =
     (if close_fails env s then Raised OSError else Failed e)"
  "fst (after_loop env ds w1 opened (Inr s)) =
     (if close_fails env s \<or> replace_raises env \<or> unlink_raises env
      then Failed OSError else Done)"
  by (simp_all add: after_loop_def Let_def)

lemma after_loop_open_gz: "ds \<notin> open_gz (snd (after_loop env ds w1 opened r))"
  by (cases r)
     (auto simp: after_loop_def Let_def closed_with_fields reported_fields split: prod.splits)

lemma after_loop_ckpt_kept:
  "ckpt (state_of r) \<noteq> None \<Longrightarrow> fst (after_loop env ds w1 opened r) \<noteq> Done \<Longrightarrow>
   ckpt_file (snd (after_loop env ds w1 opened r)) ds = ckpt (state_of r)"
  by (cases r)
     (auto simp: after_loop_def Let_def closed_with_fields reported_fields split: prod.splits)

lemma after_loop_logfile:
  "filter is_new_columns (logfile (snd (after_loop env ds w1 opened r))) =
   filter is_new_columns (logged (state_of r))"
  by (cases r)
     (auto simp: after_loop_def Let_def closed_with_fields reported_fields split: prod.splits)

lemma prefix_part_after_failed_close:
  assumes "prefix opened (part s)"
  shows "prefix opened (part_after_failed_close env opened s)"
    and "prefix (part_after_failed_close env opened s) (part s)"
proof -
  from assms obtain rest where r: "part s = opened @ rest" by (auto simp: prefix_def)
  show "prefix opened (part_after_failed_close env opened s)"
    by (simp add: part_after_failed_close_def r)
  show "prefix (part_after_failed_close env opened s) (part s)"
    by (simp add: part_after_failed_close_def take_is_prefix)
qed

lemma after_loop_Inl:
  assumes "prefix opened (part s)"
  shows "final_file (snd (after_loop env ds w1 opened (Inl (e, s)))) = final_file w1"
    and "ckpt_file (snd (after_loop env ds w1 opened (Inl (e, s)))) ds = ckpt s"
    and "\<exists>ls. part_file (snd (after_loop env ds w1 opened (Inl (e, s)))) ds = Some ls \<and>
              prefix opened ls \<and> prefix ls (part s)"
    and "\<not> close_fails env s \<Longrightarrow>
         part_file (snd (after_loop env ds w1 opened (Inl (e, s)))) ds = Some (part s)"
  using prefix_part_after_failed_close[OF assms, of env] assms
  by (simp_all add: after_loop_def closed_with_fields reported_fields)

lemma after_loop_final:
  assumes "final_file (snd (after_loop env ds w1 opened r)) \<noteq> final_file w1"
  obtains s where "r = Inr s" and "\<not> close_fails env s" and "\<not> replace_raises env"
    and "final_file (snd (after_loop env ds w1 opened r)) ds = Some (part s)"
    and "part_file (snd (after_loop env ds w1 opened r)) ds = None"
proof (cases r)
  case (Inl p)
  obtain e s where "p = (e, s)" by (cases p)
  with Inl assms show ?thesis
    by (simp add: after_loop_def closed_with_fields reported_fields split: if_splits)
next
  case (Inr s)
  with assms have c: "\<not> close_fails env s" "\<not> replace_raises env"
    by (auto simp: after_loop_def closed_with_fields reported_fields split: if_splits)
  with Inr have "final_file (snd (after_loop env ds w1 opened r)) ds = Some (part s)"
    "part_file (snd (after_loop env ds w1 opened r)) ds = None"
    by (simp_all add: after_loop_def Let_def closed_with_fields reported_fields)
  with Inr c show ?thesis by (rule that)
qed

lemma after_loop_folder:
  "after_loop (env\<lparr>folder := fs\<rparr>) ds w1 opened r = after_loop env ds w1 opened r"
  by (cases r)
     (auto simp: after_loop_def close_fails_def part_after_failed_close_def Let_def
           split: prod.splits)

lemma init_run_folder: "init_run (env\<lparr>folder := fs\<rparr>) = init_run env"
  by (simp add: fun_eq_iff init_run_def)

text \<open>The call as a whole.\<close>

lemma process_Done:
  assumes "process L env ds w = (Done, w')"
  obtains files last_done R s where "folder env = Some files"
    and "load_ckpt (ckpt_file w ds) = Inr (last_done, R)"
    and "loop_files L ds last_done (sort_key fname files) (init_run env ds R w) = Inr s"
    and "w' = w\<lparr>ckpt_file := (ckpt_file w)(ds := None),
             part_file := (part_file w)(ds := None),
             final_file := (final_file w)(ds := Some (part s)),
             open_gz := open_gz w - {ds},
             logfile := logged s,
             console := console w @
               [Summary ds (rows s) (bad_json s) (dup_seen s) (card (cols_seen s))]\<rparr>"
proof (cases rule: process_cases[where env=env and w=w and ds=ds])
  case missing
  with assms show ?thesis by (simp add: process_missing)
next
  case (bad_ckpt files e)
  with assms show ?thesis by (simp add: process_bad_ckpt)
next
  case (no_open files last_done R)
  with assms show ?thesis by (simp add: process_no_open)
next
  case (opened files last_done R)
  from assms have "after_loop env ds (w\<lparr>open_gz := insert ds (open_gz w)\<rparr>)
       (part_on_open R (part_file w ds))
       (loop_files L ds last_done (sort_key fname files) (init_run env ds R w)) = (Done, w')"
    by (simp add: process_after_open[OF opened])
  from after_loop_Done[OF this] obtain s
    where run: "loop_files L ds last_done (sort_key fname files) (init_run env ds R w) = Inr s"
      and w': "w' = (w\<lparr>open_gz := insert ds (open_gz w)\<rparr>)
            \<lparr>ckpt_file := (ckpt_file (w\<lparr>open_gz := insert ds (open_gz w)\<rparr>))(ds := None),
             part_file := (part_file (w\<lparr>open_gz := insert ds (open_gz w)\<rparr>))(ds := None),
             final_file := (final_file (w\<lparr>open_gz := insert ds (open_gz w)\<rparr>))
                (ds := Some (part s)),
             open_gz := open_gz (w\<lparr>open_gz := insert ds (open_gz w)\<rparr>) - {ds},
             logfile := logged s,
             console := console (w\<lparr>open_gz := insert ds (open_gz w)\<rparr>) @
               [Summary ds (rows s) (bad_json s) (dup_seen s) (card (cols_seen s))]\<rparr>"
    by metis
  from w' have "w' = w\<lparr>ckpt_file := (ckpt_file w)(ds := None),
             part_file := (part_file w)(ds := None),
             final_file := (final_file w)(ds := Some (part s)),
             open_gz := open_gz w - {ds},
             logfile := logged s,
             console := console w @
               [Summary ds (rows s) (bad_json s) (dup_seen s) (card (cols_seen s))]\<rparr>"
    by simp
  with opened(1,2) run show ?thesis by (rule that)
qed

text \<open>
  An exception leaves \<^verbatim>\<open>process\<close> exactly when the folder is there and the checkpoint
  cannot be read, or \<^verbatim>\<open>gzip.open\<close> raises, or the loop over the files raises and the
  handler's \<^verbatim>\<open>gz.close()\<close> raises as well.
\<close>

lemma process_Raised_iff:
  "(\<exists>x. fst (process L env ds w) = Raised x) \<longleftrightarrow>
   (\<exists>files. folder env = Some files \<and>
      ((\<exists>e. load_ckpt (ckpt_file w ds) = Inl e) \<or>
       (\<exists>last_done R. load_ckpt (ckpt_file w ds) = Inr (last_done, R) \<and>
          (gzip_open_raises env \<or>
           (\<exists>e s. loop_files L ds last_done (sort_key fname files) (init_run env ds R w) =
                     Inl (e, s) \<and> close_fails env s)))))"
proof (cases rule: process_cases[where env=env and w=w and ds=ds])
  case missing
  then show ?thesis by (simp add: process_missing)
next
  case (bad_ckpt files e)
  then show ?thesis by (simp add: process_bad_ckpt)
next
  case (no_open files last_done R)
  then show ?thesis by (simp add: process_no_open)
next
  case (opened files last_done R)
  show ?thesis
  proof (cases "loop_files L ds last_done (sort_key fname files) (init_run env ds R w)")
    case (Inl p)
    obtain e s where p: "p = (e, s)" by (cases p)
    show ?thesis
      using opened Inl p by (simp add: process_after_open[OF opened] after_loop_status)
  next
    case (Inr s)
    show ?thesis
      using opened Inr by (simp add: process_after_open[OF opened] after_loop_status)
  qed
qed

lemma process_Done_final:
  assumes "process L env ds w = (Done, w')" and "folder env = Some files"
    and "load_ckpt (ckpt_file w ds) = Inr (last_done, R)"
  shows "final_file w' ds =
     Some (part_on_open R (part_file w ds) @
           map (json_dumps L) (run_records L last_done (sort_key fname files)))"
    and "part_file w' ds = None" and "ckpt_file w' ds = None"
proof -
  from process_Done[OF assms(1)] obtain files' last_done' R' s
    where f: "folder env = Some files'"
      and l: "load_ckpt (ckpt_file w ds) = Inr (last_done', R')"
      and run: "loop_files L ds last_done' (sort_key fname files') (init_run env ds R' w) = Inr s"
      and w': "w' = w\<lparr>ckpt_file := (ckpt_file w)(ds := None),
             part_file := (part_file w)(ds := None),
             final_file := (final_file w)(ds := Some (part s)),
             open_gz := open_gz w - {ds},
             logfile := logged s,
             console := console w @
               [Summary ds (rows s) (bad_json s) (dup_seen s) (card (cols_seen s))]\<rparr>"
    by blast
  from f l assms(2,3) have eq: "files' = files" "last_done' = last_done" "R' = R" by simp_all
  from loop_files_Inr[OF run]
  have "part s = part_on_open R (part_file w ds) @
           map (json_dumps L) (run_records L last_done (sort_key fname files))"
    by (simp add: advanced_def eq init_run_def)
  then show "final_file w' ds =
     Some (part_on_open R (part_file w ds) @
           map (json_dumps L) (run_records L last_done (sort_key fname files)))"
    by (simp add: w')
  show "part_file w' ds = None" "ckpt_file w' ds = None" by (simp_all add: w')
qed

lemma process_Done_line_count:
  assumes "process L env ds w = (Done, w')" and "folder env = Some files"
    and "load_ckpt (ckpt_file w ds) = Inr (last_done, R)"
  shows "\<exists>ls. final_file w' ds = Some ls \<and>
           length ls = length (part_on_open R (part_file w ds)) +
                       length (run_records L last_done (sort_key fname files))"
  using process_Done_final(1)[OF assms] by simp

text \<open>
  When the part-file holds exactly the checkpointed number of rows on opening (or that
  number is 0), a finished run's final file has that number of lines plus one per record
  of the files it did not skip.
\<close>

lemma resume_line_count_at_file_boundary:
  assumes "process L env ds w = (Done, w')" and "folder env = Some files"
    and "load_ckpt (ckpt_file w ds) = Inr (last_done, R)"
    and "R = 0 \<or> (\<exists>ls. part_file w ds = Some ls \<and> int (length ls) = R)"
  shows "\<exists>ls. final_file w' ds = Some ls \<and>
           int (length ls) = R + int (length (run_records L last_done (sort_key fname files)))"
  using process_Done_final(1)[OF assms(1,2,3)] assms(4)
  by (auto simp: part_on_open_def)

text \<open>
  When the loop over the files raises: the stream is closed, no final file changes, the
  checkpoint is as the loop left it (and still there when it was there before), and the
  part-file is there, starts with what it held on opening and holds lines of this run in
  the order written: all of them when the handler's \<^verbatim>\<open>gz.close()\<close> succeeds, in which
  case the failure is reported; when it raises, its exception leaves the call.
\<close>

lemma loop_exception_leaves_files:
  assumes "folder env = Some files" and "load_ckpt (ckpt_file w ds) = Inr (last_done, R)"
    and "\<not> gzip_open_raises env"
    and "loop_files L ds last_done (sort_key fname files) (init_run env ds R w) = Inl (e, s)"
  shows "ds \<notin> open_gz (snd (process L env ds w))"
    and "final_file (snd (process L env ds w)) = final_file w"
    and "ckpt_file (snd (process L env ds w)) ds = ckpt s"
    and "ckpt_file w ds \<noteq> None \<Longrightarrow> ckpt_file (snd (process L env ds w)) ds \<noteq> None"
    and "\<exists>ls. part_file (snd (process L env ds w)) ds = Some ls \<and>
              prefix (part_on_open R (part_file w ds)) ls \<and> prefix ls (part s)"
    and "\<not> close_fails env s \<Longrightarrow> part_file (snd (process L env ds w)) ds = Some (part s)"
    and "fst (process L env ds w) = (if close_fails env s then Raised OSError else Failed e)"
proof -
  note p = process_after_open[OF assms(1,2,3), of L]
  have k: "kept (init_run env ds R w) s"
    using loop_files_kept[of "init_run env ds R w" L ds last_done "sort_key fname files"]
      assms(4) by simp
  have pre: "prefix (part_on_open R (part_file w ds)) (part s)"
    using kept_part[OF k] by (simp add: init_run_def)
  show "ds \<notin> open_gz (snd (process L env ds w))"
    unfolding p by (rule after_loop_open_gz)
  show "final_file (snd (process L env ds w)) = final_file w"
    unfolding p assms(4) by (simp add: after_loop_Inl(1)[OF pre])
  show c: "ckpt_file (snd (process L env ds w)) ds = ckpt s"
    unfolding p assms(4) by (simp add: after_loop_Inl(2)[OF pre])
  show "ckpt_file (snd (process L env ds w)) ds \<noteq> None" if "ckpt_file w ds \<noteq> None"
    using kept_ckpt[OF k] that c by (simp add: init_run_def)
  show "\<exists>ls. part_file (snd (process L env ds w)) ds = Some ls \<and>
              prefix (part_on_open R (part_file w ds)) ls \<and> prefix ls (part s)"
    unfolding p assms(4) by (rule after_loop_Inl(3)[OF pre])
  show "part_file (snd (process L env ds w)) ds = Some (part s)" if "\<not> close_fails env s"
    unfolding p assms(4) by (rule after_loop_Inl(4)[OF pre that])
  show "fst (process L env ds w) = (if close_fails env s then Raised OSError else Failed e)"
    unfolding p assms(4) by (rule after_loop_status(1))
qed

text \<open>
  Within one call, the final file of the dataset changes only when the loop over the files
  has ended without an exception and \<^verbatim>\<open>gz.close()\<close> and \<^verbatim>\<open>os.replace\<close> have succeeded; it
  is then the part-file as it was opened followed by all records of this run.
\<close>

lemma final_changes_only_after_loop:
  assumes "final_file (snd (process L env ds w)) \<noteq> final_file w"
  shows "\<exists>files last_done R s.
           folder env = Some files \<and> load_ckpt (ckpt_file w ds) = Inr (last_done, R) \<and>
           loop_files L ds last_done (sort_key fname files) (init_run env ds R w) = Inr s \<and>
           \<not> close_fails env s \<and> \<not> replace_raises env \<and>
           part_file (snd (process L env ds w)) ds = None \<and>
           final_file (snd (process L env ds w)) ds =
             Some (part_on_open R (part_file w ds) @
                   map (json_dumps L) (run_records L last_done (sort_key fname files)))"
proof (cases rule: process_cases[where env=env and w=w and ds=ds])
  case missing
  with assms show ?thesis by (simp add: process_missing)
next
  case (bad_ckpt files e)
  with assms show ?thesis by (simp add: process_bad_ckpt)
next
  case (no_open files last_done R)
  with assms show ?thesis by (simp add: process_no_open)
next
  case (opened files last_done R)
  note p = process_after_open[OF opened, of L]
  let ?w1 = "w\<lparr>open_gz := insert ds (open_gz w)\<rparr>"
  let ?r = "loop_files L ds last_done (sort_key fname files) (init_run env ds R w)"
  from assms have "final_file (snd (after_loop env ds ?w1 (part_on_open R (part_file w ds)) ?r))
      \<noteq> final_file ?w1"
    by (simp add: p)
  from after_loop_final[OF this] obtain s where run: "?r = Inr s"
    and c: "\<not> close_fails env s" "\<not> replace_raises env"
    and f: "final_file (snd (after_loop env ds ?w1 (part_on_open R (part_file w ds)) ?r)) ds =
              Some (part s)"
    and g: "part_file (snd (after_loop env ds ?w1 (part_on_open R (part_file w ds)) ?r)) ds =
              None"
    by metis
  from loop_files_Inr[OF run]
  have "part s = part_on_open R (part_file w ds) @
           map (json_dumps L) (run_records L last_done (sort_key fname files))"
    by (simp add: advanced_def init_run_def)
  with f have "final_file (snd (process L env ds w)) ds =
             Some (part_on_open R (part_file w ds) @
                   map (json_dumps L) (run_records L last_done (sort_key fname files)))"
    by (simp add: p)
  moreover from g have "part_file (snd (process L env ds w)) ds = None" by (simp add: p)
  ultimately show ?thesis using opened(1,2) run c by blast
qed

lemma process_logs_no_new_columns:
  "filter is_new_columns (logfile (snd (process L env ds w))) = filter is_new_columns (logfile w)"
proof (cases rule: process_cases[where env=env and w=w and ds=ds])
  case missing
  then show ?thesis by (simp add: process_missing)
next
  case (bad_ckpt files e)
  then show ?thesis by (simp add: process_bad_ckpt)
next
  case (no_open files last_done R)
  then show ?thesis by (simp add: process_no_open)
next
  case (opened files last_done R)
  have "kept (init_run env ds R w)
          (state_of (loop_files L ds last_done (sort_key fname files) (init_run env ds R w)))"
    by (rule loop_files_kept)
  from kept_logged[OF this] show ?thesis
    by (simp add: process_after_open[OF opened] after_loop_logfile init_run_def)
qed

text \<open>
  C8. A run that starts without a checkpoint and finishes: the set \<open>cols_seen\<close> at the end
  is exactly the union of the normalized keys of the parsed records of all files of the
  folder (a file with an unrecognized extension has none), and the summary line reports
  the size of that set.
\<close>

theorem columns_are_union_of_keys:
  assumes "ckpt_file w ds = None" and "folder env = Some files"
    and "process L env ds w = (Done, w')"
  shows "\<exists>s. loop_files L ds None (sort_key fname files) (init_run env ds 0 w) = Inr s \<and>
           cols_seen s = (\<Union>f \<in> set files. \<Union>d \<in> set (parsed_records L f). clean_key ` fst ` set d) \<and>
           console w' = console w @
             [Summary ds (rows s) (bad_json s) (dup_seen s) (card (cols_seen s))]"
proof -
  from process_Done[OF assms(3)] obtain files' last_done R s
    where f: "folder env = Some files'"
      and l: "load_ckpt (ckpt_file w ds) = Inr (last_done, R)"
      and run: "loop_files L ds last_done (sort_key fname files') (init_run env ds R w) = Inr s"
      and w': "w' = w\<lparr>ckpt_file := (ckpt_file w)(ds := None),
             part_file := (part_file w)(ds := None),
             final_file := (final_file w)(ds := Some (part s)),
             open_gz := open_gz w - {ds},
             logfile := logged s,
             console := console w @
               [Summary ds (rows s) (bad_json s) (dup_seen s) (card (cols_seen s))]\<rparr>"
    by blast
  from f assms(2) have files: "files' = files" by simp
  from l assms(1) have lr: "last_done = None" "R = 0" by (simp_all add: load_ckpt_None)
  from loop_files_Inr[OF run]
  have "cols_seen s = (\<Union>r \<in> set (run_records L None (sort_key fname files)). fst ` set r)"
    by (simp add: advanced_def files lr init_run_def)
  also have "\<dots> = (\<Union>f \<in> set files. \<Union>r \<in> set (records_of L f). fst ` set r)"
    by (simp add: run_records_None)
  finally have "cols_seen s =
      (\<Union>f \<in> set files. \<Union>d \<in> set (parsed_records L f). clean_key ` fst ` set d)"
    by (simp add: keys_records_of)
  then show ?thesis using run w' by (auto simp: files lr)
qed

theorem columns_are_union_of_keys_witness:
  "ckpt_file empty_world ''tracks'' = None \<and>
   folder (tracks_env None) = Some two_files \<and>
   process toy (tracks_env None) ''tracks'' empty_world = (Done, finished_world) \<and>
   (\<exists>s. loop_files toy ''tracks'' None (sort_key fname two_files)
           (init_run (tracks_env None) ''tracks'' 0 empty_world) = Inr s \<and>
        cols_seen s =
          (\<Union>f \<in> set two_files. \<Union>d \<in> set (parsed_records toy f). clean_key ` fst ` set d) \<and>
        console finished_world = console empty_world @
          [Summary ''tracks'' (rows s) (bad_json s) (dup_seen s) (card (cols_seen s))])"
proof -
  have c: "ckpt_file empty_world ''tracks'' = None" by (simp add: empty_world_def)
  have f: "folder (tracks_env None) = Some two_files" by (simp add: tracks_env_def quiet_def)
  have "fst (process toy (tracks_env None) ''tracks'' empty_world) = Done" by code_simp
  then have p: "process toy (tracks_env None) ''tracks'' empty_world = (Done, finished_world)"
    by (simp add: finished_world_def prod_eq_iff)
  from columns_are_union_of_keys[OF c f p] c f p show ?thesis by (intro conjI)
qed

text \<open>
  C2. With a checkpoint naming the file \<open>F\<close>, the files whose name is at most \<open>F\<close> are
  skipped: the call does exactly what it does on the folder without them. When it
  finishes, the final file holds what the part-file held on opening, followed by all
  records of the files whose name is greater than \<open>F\<close>, each file from its first record,
  in the order of the names. Without a checkpoint no file is left out: the final file holds
  the records of all files.
\<close>

theorem resume_skips_by_name:
  assumes "folder env = Some files"
  shows "(\<forall>F R. load_ckpt (ckpt_file w ds) = Inr (Some F, R) \<and> F \<noteq> [] \<longrightarrow>
            process L env ds w =
              process L (env\<lparr>folder := Some (filter (\<lambda>f. F < fname f) files)\<rparr>) ds w \<and>
            (fst (process L env ds w) = Done \<longrightarrow>
               final_file (snd (process L env ds w)) ds =
                 Some (part_on_open R (part_file w ds) @
                       map (json_dumps L)
                         (concat (map (records_of L)
                            (filter (\<lambda>f. F < fname f) (sort_key fname files))))))) \<and>
         (ckpt_file w ds = None \<and> fst (process L env ds w) = Done \<longrightarrow>
            final_file (snd (process L env ds w)) ds =
              Some (map (json_dumps L) (concat (map (records_of L) (sort_key fname files)))))"
proof (intro conjI allI impI)
  fix F R
  assume a: "load_ckpt (ckpt_file w ds) = Inr (Some F, R) \<and> F \<noteq> []"
  then have l: "load_ckpt (ckpt_file w ds) = Inr (Some F, R)" and ne: "F \<noteq> []" by simp_all
  show "process L env ds w =
        process L (env\<lparr>folder := Some (filter (\<lambda>f. F < fname f) files)\<rparr>) ds w"
    using assms l
    by (simp add: process_def after_loop_folder init_run_folder loop_files_after[OF ne])
  assume "fst (process L env ds w) = Done"
  then have "process L env ds w = (Done, snd (process L env ds w))"
    by (metis prod.collapse)
  from process_Done_final(1)[OF this assms l]
  show "final_file (snd (process L env ds w)) ds =
          Some (part_on_open R (part_file w ds) @
                map (json_dumps L)
                  (concat (map (records_of L)
                     (filter (\<lambda>f. F < fname f) (sort_key fname files)))))"
    by (simp add: run_records_Some[OF ne])
next
  assume a: "ckpt_file w ds = None \<and> fst (process L env ds w) = Done"
  then have l: "load_ckpt (ckpt_file w ds) = Inr (None, 0)" by (simp add: load_ckpt_None)
  from a have "process L env ds w = (Done, snd (process L env ds w))"
    by (metis prod.collapse)
  from process_Done_final(1)[OF this assms l]
  show "final_file (snd (process L env ds w)) ds =
          Some (map (json_dumps L) (concat (map (records_of L) (sort_key fname files))))"
    by (simp add: run_records_None part_on_open_def)
qed

theorem resume_skips_by_name_witness:
  "folder (tracks_env None) = Some two_files \<and>
   load_ckpt (ckpt_file interrupted_world ''tracks'') = Inr (Some ''a.json'', 1) \<and>
   ''a.json'' \<noteq> [] \<and>
   process toy (tracks_env None) ''tracks'' interrupted_world =
     process toy ((tracks_env None)\<lparr>folder := Some (filter (\<lambda>f. ''a.json'' < fname f) two_files)\<rparr>)
       ''tracks'' interrupted_world \<and>
   fst (process toy (tracks_env None) ''tracks'' interrupted_world) = Done \<and>
   final_file (snd (process toy (tracks_env None) ''tracks'' interrupted_world)) ''tracks'' =
     Some (part_on_open 1 (part_file interrupted_world ''tracks'') @
           map (json_dumps toy)
             (concat (map (records_of toy)
                (filter (\<lambda>f. ''a.json'' < fname f) (sort_key fname two_files))))) \<and>
   ckpt_file empty_world ''tracks'' = None \<and>
   fst (process toy (tracks_env None) ''tracks'' empty_world) = Done \<and>
   final_file (snd (process toy (tracks_env None) ''tracks'' empty_world)) ''tracks'' =
     Some (map (json_dumps toy) (concat (map (records_of toy) (sort_key fname two_files))))"
proof -
  have f: "folder (tracks_env None) = Some two_files" by (simp add: tracks_env_def quiet_def)
  have l: "load_ckpt (ckpt_file interrupted_world ''tracks'') = Inr (Some ''a.json'', 1)"
    by code_simp
  have d1: "fst (process toy (tracks_env None) ''tracks'' interrupted_world) = Done"
    by code_simp
  have c: "ckpt_file empty_world ''tracks'' = None" by (simp add: empty_world_def)
  have d2: "fst (process toy (tracks_env None) ''tracks'' empty_world) = Done"
    by code_simp
  have ln: "load_ckpt (ckpt_file interrupted_world ''tracks'') = Inr (Some ''a.json'', 1) \<and>
            ''a.json'' \<noteq> []"
    using l by simp
  note r1 = resume_skips_by_name[OF f, of interrupted_world "''tracks''" toy,
              THEN conjunct1, rule_format, OF ln]
  note r2 = resume_skips_by_name[OF f, of empty_world "''tracks''" toy,
              THEN conjunct2, rule_format, OF conjI[OF c d2]]
  note same = r1[THEN conjunct1]
  note fin = r1[THEN conjunct2, rule_format, OF d1]
  show ?thesis
    by (intro conjI) (rule f l same d1 fin c d2 r2 | simp)+
qed

text \<open>
  C3. Unflushed rows under the final name. The first run reads both files and records the
  last one in the checkpoint with three rows; then \<^verbatim>\<open>gz.close()\<close> raises while it
  flushes, which the handler reports, and none of the three rows is in the part-file. The
  second run, undisturbed, loads that checkpoint, opens the part-file for appending, skips
  both files, closes the stream and renames the part-file: the final file is there and
  holds none of the three records of the dataset, while the summary reports 3 rows.
\<close>

theorem unflushed_rows_reach_the_final_name:
  "fst (process toy full_disk_env ''tracks'' empty_world) = Failed OSError \<and>
   part_file unflushed_world ''tracks'' = Some [] \<and>
   final_file unflushed_world ''tracks'' = None \<and>
   load_ckpt (ckpt_file unflushed_world ''tracks'') = Inr (Some ''b.json'', 3) \<and>
   fst (process toy (tracks_env None) ''tracks'' unflushed_world) = Done \<and>
   run_records toy None (sort_key fname two_files) =
     [[(''x'', ''1'')], [(''y'', ''2''), (''x'', ''1'')], [(''z'', ''3'')]] \<and>
   final_file exposed_world ''tracks'' = Some [] \<and>
   console exposed_world = [ErrorMsg ''tracks'' OSError, Summary ''tracks'' 3 0 False 0]"
  by code_simp

text \<open>
  C1. Resuming after a run that stopped inside a file. The first run stops at the second
  line of \<^verbatim>\<open>b.json\<close>, a JSON list, and leaves two lines in the part-file and a checkpoint
  recording \<^verbatim>\<open>a.json\<close> with one row. With the line repaired, the second run finishes: it
  skips \<^verbatim>\<open>a.json\<close>, reads the two records of \<^verbatim>\<open>b.json\<close>, and renames a part-file of four
  lines, not of 1 + 2: the row written before the failure is there twice, while the summary
  reports 3 rows.
\<close>

theorem resume_after_partial_file_repeats_rows:
  "fst (process toy broken_env ''tracks'' empty_world) = Failed AttributeError \<and>
   part_file interrupted_world ''tracks'' = Some [''x=1;'', ''y=2;x=1;''] \<and>
   load_ckpt (ckpt_file interrupted_world ''tracks'') = Inr (Some ''a.json'', 1) \<and>
   fst (process toy (tracks_env None) ''tracks'' interrupted_world) = Done \<and>
   run_records toy (Some ''a.json'') (sort_key fname two_files) =
     [[(''y'', ''2''), (''x'', ''1'')], [(''z'', ''3'')]] \<and>
   final_file resumed_world ''tracks'' = Some [''x=1;'', ''y=2;x=1;'', ''y=2;x=1;'', ''z=3;''] \<and>
   console resumed_world = [ErrorMsg ''tracks'' AttributeError, Summary ''tracks'' 3 0 False 3]"
  by code_simp

text \<open>
  C7. A run over one file with one record, whose column \<^verbatim>\<open>z\<close> appears for the first time
  in the run: the record is written and the summary counts one column, but the log stays
  empty, with no new-column entry. The generator has added the keys to the shared set
  before the loop body looks for new ones.
\<close>

theorem first_column_is_not_logged:
  "fst (process toy one_column ''tracks'' empty_world) = Done \<and>
   final_file (snd (process toy one_column ''tracks'' empty_world)) ''tracks'' = Some [''z=3;''] \<and>
   console (snd (process toy one_column ''tracks'' empty_world)) = [Summary ''tracks'' 1 0 False 1] \<and>
   logfile (snd (process toy one_column ''tracks'' empty_world)) = []"
  by code_simp

section \<open>All datasets\<close>

text \<open>
  C4. When \<^verbatim>\<open>gzip.open\<close> fails for the first dataset, \<^verbatim>\<open>run_all\<close> ends with
  \<^verbatim>\<open>UnboundLocalError\<close>: nothing is printed or logged and none of the three remaining
  datasets gets its final file. A checkpoint whose second line is not a number ends the run
  with \<^verbatim>\<open>ValueError\<close> in the same way.
\<close>

theorem gzip_open_failure_ends_run_all:
  "fst (run_all toy four_datasets empty_world) = Some UnboundLocalError \<and>
   console (snd (run_all toy four_datasets empty_world)) = [] \<and>
   logfile (snd (run_all toy four_datasets empty_world)) = [] \<and>
   final_file (snd (run_all toy four_datasets empty_world)) ''playlist_track'' = None \<and>
   final_file (snd (run_all toy four_datasets empty_world)) ''track_facts'' = None \<and>
   final_file (snd (run_all toy four_datasets empty_world)) ''tracks'' = None \<and>
   fst (run_all toy (\<lambda>d. tracks_env None) bad_ckpt_world) = Some ValueError \<and>
   console (snd (run_all toy (\<lambda>d. tracks_env None) bad_ckpt_world)) = [] \<and>
   final_file (snd (run_all toy (\<lambda>d. tracks_env None) bad_ckpt_world)) ''tracks'' = None"
  by code_simp

text \<open>
  By contrast, an exception raised while a file is read is caught when the handler can
  close the stream: the first dataset stops at a line that is a JSON list, and the three
  others are processed.
\<close>

lemma caught_failure_is_isolated:
  "fst (run_all toy (\<lambda>d. if d = ''orders'' then broken_env else tracks_env None)
          empty_world) = None \<and>
   console (snd (run_all toy (\<lambda>d. if d = ''orders'' then broken_env else tracks_env None)
          empty_world)) =
     [ErrorMsg ''orders'' AttributeError, Summary ''playlist_track'' 3 0 False 3,
      Summary ''track_facts'' 3 0 False 3, Summary ''tracks'' 3 0 False 3, LogFileMsg]"
  by code_simp

text \<open>
  A \<^verbatim>\<open>gz.write\<close> that raises is not: the handler's \<^verbatim>\<open>gz.close()\<close> raises on the data
  the stream could not write, and that exception ends the run as well.
\<close>

lemma write_failure_ends_run_all:
  "fst (run_all toy (\<lambda>d. if d = ''orders'' then tracks_env (Some 0) else tracks_env None)
          empty_world) = Some OSError \<and>
   console (snd (run_all toy (\<lambda>d. if d = ''orders'' then tracks_env (Some 0) else tracks_env None)
          empty_world)) = []"
  by code_simp

end
